theory Spec2Isabelle
  imports Main "HOL-Library.Sublist" "HOL-Library.Multiset"
begin

section \<open>Strings\<close>

text \<open>
  A Python \<open>str\<close> is a sequence of Unicode code points. The manuscripts are Chinese, so
  a character is modelled by its code point (a natural number) and a string by the list
  of its code points; \<open>length\<close> then counts what Python's \<open>len\<close> counts. String
  constants of the script are written as their code points, pure ASCII ones through
  \<open>ascii\<close>.
\<close>

type_synonym str = "nat list"

definition ascii :: "string \<Rightarrow> str" where
  "ascii s = map of_char s"

text \<open>\<open>sub in s\<close> of Python: \<open>sub\<close> occurs in \<open>s\<close> as a contiguous substring.\<close>

fun str_in :: "str \<Rightarrow> str \<Rightarrow> bool" where
  "str_in sub [] = (sub = [])"
| "str_in sub (c # cs) = (prefix sub (c # cs) \<or> str_in sub cs)"

text \<open>\<open>sep.join(xs)\<close>.\<close>

fun join :: "str \<Rightarrow> str list \<Rightarrow> str" where
  "join sep [] = []"
| "join sep [x] = x"
| "join sep (x # y # ys) = x @ sep @ join sep (y # ys)"

text \<open>
  \<open>xs.remove(x)\<close> deletes the first occurrence of \<open>x\<close> and raises \<open>ValueError\<close> when
  there is none.
\<close>

datatype error = ValueError

definition list_remove :: "'a \<Rightarrow> 'a list \<Rightarrow> error + 'a list" where
  "list_remove x xs = (if x \<in> set xs then Inr (remove1 x xs) else Inl ValueError)"

section \<open>The regular expressions of the script\<close>

subsection \<open>Character classes of the interpreter\<close>

text \<open>
  The script's patterns are \<open>str\<close> patterns, so \<open>\w\<close> (behind \<open>\b\<close>) and \<open>\d\<close> follow
  the Unicode database of the interpreter: \<open>\w\<close> is an alphanumeric character or the
  underscore, \<open>\d\<close> a decimal digit. The model fixes both on ASCII and on the block
  U+4E00..U+9FA5 of CJK ideographs (letters, the range the script itself names), and
  takes the database's verdict on every other code point as a parameter.
\<close>

record unicode_tables =
  other_alnum :: "nat \<Rightarrow> bool"
  other_decimal :: "nat \<Rightarrow> bool"

definition cjk :: "nat \<Rightarrow> bool" where
  "cjk c = (0x4E00 \<le> c \<and> c \<le> 0x9FA5)"

definition is_decimal :: "unicode_tables \<Rightarrow> nat \<Rightarrow> bool" where
  "is_decimal u c = (if c < 128 then 48 \<le> c \<and> c \<le> 57 else \<not> cjk c \<and> other_decimal u c)"

definition is_word :: "unicode_tables \<Rightarrow> nat \<Rightarrow> bool" where
  "is_word u c =
     (if c < 128 then (48 \<le> c \<and> c \<le> 57) \<or> (65 \<le> c \<and> c \<le> 90) \<or> (97 \<le> c \<and> c \<le> 122) \<or> c = 95
      else cjk c \<or> other_alnum u c \<or> other_decimal u c)"

text \<open>A database that knows no word character and no digit beyond ASCII and the CJK block.\<close>

definition plain_tables :: unicode_tables where
  "plain_tables = \<lparr>other_alnum = (\<lambda>c. False), other_decimal = (\<lambda>c. False)\<rparr>"

subsection \<open>Patterns\<close>

text \<open>
  The patterns use literals, \<open>.\<close>, \<open>\d\<close>, bracketed classes (plain and negated), greedy
  repetition of one such atom (\<open>*\<close>, \<open>+\<close>, \<open>{4}\<close>), \<open>\b\<close> and capturing groups that hold
  no repetition of a group. A pattern is the list of its items; a group is marked by
  its two parentheses.
\<close>

datatype atom = Dot | Digit | In "(nat \<times> nat) list" | NotIn "(nat \<times> nat) list"

datatype item = Lit str | One atom | Rep atom nat "nat option" | Bnd | LParen | RParen

type_synonym regex = "item list"

definition in_ranges :: "nat \<Rightarrow> (nat \<times> nat) list \<Rightarrow> bool" where
  "in_ranges c rs = list_ex (\<lambda>(lo, hi). lo \<le> c \<and> c \<le> hi) rs"

text \<open>Without \<open>re.DOTALL\<close> the dot matches every character but the newline.\<close>

fun atom_ok :: "unicode_tables \<Rightarrow> atom \<Rightarrow> nat \<Rightarrow> bool" where
  "atom_ok u Dot c = (c \<noteq> 10)"
| "atom_ok u Digit c = is_decimal u c"
| "atom_ok u (In rs) c = in_ranges c rs"
| "atom_ok u (NotIn rs) c = (\<not> in_ranges c rs)"

text \<open>
  A position of the text is the character before it (none at the start) and the rest of
  the text from it. \<open>\b\<close> holds where exactly one of the two neighbours is a word
  character.
\<close>

definition at_boundary :: "unicode_tables \<Rightarrow> nat option \<Rightarrow> str \<Rightarrow> bool" where
  "at_boundary u p r =
     ((case p of None \<Rightarrow> False | Some c \<Rightarrow> is_word u c) \<noteq>
      (case r of [] \<Rightarrow> False | c # cs \<Rightarrow> is_word u c))"

text \<open>The character before the position reached after consuming \<open>s\<close>.\<close>

definition prev_after :: "nat option \<Rightarrow> str \<Rightarrow> nat option" where
  "prev_after p s = (if s = [] then p else Some (last s))"

primrec first_some :: "('a \<Rightarrow> 'b option) \<Rightarrow> 'a list \<Rightarrow> 'b option" where
  "first_some f [] = None"
| "first_some f (x # xs) = (case f x of Some y \<Rightarrow> Some y | None \<Rightarrow> first_some f xs)"

definition run_len :: "unicode_tables \<Rightarrow> atom \<Rightarrow> nat option \<Rightarrow> str \<Rightarrow> nat" where
  "run_len u a hi r =
     (let l = length (takeWhile (atom_ok u a) r)
      in case hi of None \<Rightarrow> l | Some h \<Rightarrow> min h l)"

text \<open>
  The backtracking matcher, anchored at a position. \<open>rmatch u re p r n ms\<close> matches the
  items \<open>re\<close> against the rest \<open>r\<close>, with \<open>n\<close> characters of the match consumed so far
  and the group marks \<open>ms\<close> set so far, and returns the length of the whole match with
  all its marks. A greedy repetition takes the longest run its atom allows and gives
  characters back one at a time, down to its lower bound, until the items after it
  match: the first success in this order is the match the engine reports.
\<close>

fun rmatch :: "unicode_tables \<Rightarrow> regex \<Rightarrow> nat option \<Rightarrow> str \<Rightarrow> nat \<Rightarrow> nat list \<Rightarrow> (nat \<times> nat list) option" where
  "rmatch u [] p r n ms = Some (n, ms)"
| "rmatch u (Lit s # is) p r n ms =
     (if prefix s r then rmatch u is (prev_after p s) (drop (length s) r) (n + length s) ms
      else None)"
| "rmatch u (One a # is) p r n ms =
     (case r of [] \<Rightarrow> None
      | c # cs \<Rightarrow> if atom_ok u a c then rmatch u is (Some c) cs (Suc n) ms else None)"
| "rmatch u (Rep a lo hi # is) p r n ms =
     (let k = run_len u a hi r
      in if k < lo then None
         else first_some (\<lambda>j. rmatch u is (prev_after p (take j r)) (drop j r) (n + j) ms)
                (rev [lo..<Suc k]))"
| "rmatch u (Bnd # is) p r n ms = (if at_boundary u p r then rmatch u is p r n ms else None)"
| "rmatch u (LParen # is) p r n ms = rmatch u is p r n (ms @ [n])"
| "rmatch u (RParen # is) p r n ms = rmatch u is p r n (ms @ [n])"

definition re_match :: "unicode_tables \<Rightarrow> regex \<Rightarrow> nat option \<Rightarrow> str \<Rightarrow> (nat \<times> nat list) option" where
  "re_match u re p r = rmatch u re p r 0 []"

text \<open>
  \<open>re.search\<close>, read as a truth value: the pattern matches at some position of the text,
  the end included.
\<close>

fun re_search :: "unicode_tables \<Rightarrow> regex \<Rightarrow> nat option \<Rightarrow> str \<Rightarrow> bool" where
  "re_search u re p [] = (re_match u re p [] \<noteq> None)"
| "re_search u re p (c # cs) = (re_match u re p (c # cs) \<noteq> None \<or> re_search u re (Some c) cs)"

text \<open>
  What \<open>findall\<close> returns for one match: the whole match when the pattern has no group,
  otherwise its groups in order (one string for a single group, a tuple for several; the
  model keeps a list in each case).
\<close>

fun spans :: "nat list \<Rightarrow> str \<Rightarrow> str list" where
  "spans (a # b # ms) r = take (b - a) (drop a r) # spans ms r"
| "spans ms r = []"

definition match_groups :: "nat \<times> nat list \<Rightarrow> str \<Rightarrow> str list" where
  "match_groups m r = (case m of (n, ms) \<Rightarrow> if ms = [] then [take n r] else spans ms r)"

text \<open>
  \<open>findall\<close>: the matches from left to right, without overlap. The scan tries a match
  at each position; after a match of \<open>n\<close> characters it skips the \<open>n - 1\<close> positions the
  match covers (\<open>k\<close> counts the positions still to skip). Every pattern of the script
  consumes at least one character, so the engine's special treatment of empty matches
  never comes into play.
\<close>

fun scan :: "unicode_tables \<Rightarrow> regex \<Rightarrow> nat option \<Rightarrow> str \<Rightarrow> nat \<Rightarrow> str list list" where
  "scan u re p [] k =
     (if 0 < k then []
      else case re_match u re p [] of None \<Rightarrow> [] | Some m \<Rightarrow> [match_groups m []])"
| "scan u re p (c # cs) k =
     (if 0 < k then scan u re (Some c) cs (k - 1)
      else case re_match u re p (c # cs) of
             None \<Rightarrow> scan u re (Some c) cs 0
           | Some m \<Rightarrow> match_groups m (c # cs) # scan u re (Some c) cs (fst m - 1))"

definition re_findall :: "unicode_tables \<Rightarrow> regex \<Rightarrow> str \<Rightarrow> str list list" where
  "re_findall u re s = scan u re None s 0"

text \<open>
  \<open>findall\<close> for a pattern with at most one group, where Python returns plain strings.
\<close>

definition re_findall_str :: "unicode_tables \<Rightarrow> regex \<Rightarrow> str \<Rightarrow> str list" where
  "re_findall_str u re s = concat (re_findall u re s)"

abbreviation upper :: "(nat \<times> nat) list" where "upper \<equiv> [(65, 90)]"
abbreviation alpha :: "(nat \<times> nat) list" where "alpha \<equiv> [(97, 122), (65, 90)]"
abbreviation ideograph :: "(nat \<times> nat) list" where "ideograph \<equiv> [(0x4E00, 0x9FA5)]"
abbreviation rquote :: "(nat \<times> nat) list" where "rquote \<equiv> [(0x300B, 0x300B)]"

section \<open>Words and sentences of the script\<close>

text \<open>
  The strings of the script that the statements below speak of get a name; each name
  stands for the string as the script writes it, and unfolds when a term is evaluated.
\<close>

text \<open>Contemporary art.\<close>

definition contemporary_art :: str where
  "contemporary_art = [0x5F53, 0x4EE3, 0x827A, 0x672F]"

text \<open>Digital art.\<close>

definition digital_art :: str where
  "digital_art = [0x6570, 0x5B57, 0x827A, 0x672F]"

text \<open>Medium.\<close>

definition medium :: str where
  "medium = [0x4E2D, 0x7B49]"

text \<open>Average.\<close>

definition average :: str where
  "average = [0x4E00, 0x822C]"

text \<open>Rather deep.\<close>

definition deeper :: str where
  "deeper = [0x8F83, 0x6DF1]"

text \<open>Rather good.\<close>

definition better :: str where
  "better = [0x8F83, 0x597D]"

text \<open>The reading stays on the surface and lacks an analysis of the cultural context.\<close>

definition surface_reading :: str where
  "surface_reading = [0x6587, 0x672C, 0x9610, 0x91CA, 0x8F83, 0x4E3A, 0x8868, 0x9762, 0xFF0C,
                      0x7F3A, 0x4E4F, 0x6DF1, 0x5165, 0x7684, 0x6587, 0x5316, 0x8BED, 0x5883,
                      0x5206, 0x6790]"

text \<open>Theory and text are joined loosely, the theory is applied mechanically.\<close>

definition forced_theory :: str where
  "forced_theory = [0x7406, 0x8BBA, 0x4E0E, 0x6587, 0x672C, 0x7ED3, 0x5408, 0x4E0D, 0x591F, 0x7D27,
                    0x5BC6, 0xFF0C, 0x5B58, 0x5728, 0x751F, 0x642C, 0x786C, 0x5957, 0x73B0, 0x8C61]"

text \<open>No attention to contemporary art practice.\<close>

definition no_contemporary_practice :: str where
  "no_contemporary_practice = [0x7F3A, 0x4E4F, 0x5BF9, 0x5F53, 0x4EE3, 0x827A, 0x672F, 0x5B9E,
                               0x8DF5, 0x7684, 0x89C2, 0x7167]"

text \<open>Deconstructionism.\<close>

definition deconstructionism :: str where
  "deconstructionism = [0x89E3, 0x6784, 0x4E3B, 0x4E49]"

text \<open>Structuralism.\<close>

definition structuralism :: str where
  "structuralism = [0x7ED3, 0x6784, 0x4E3B, 0x4E49]"

text \<open>Sense of things.\<close>

definition wugan :: str where
  "wugan = [0x7269, 0x611F]"

text \<open>Reification.\<close>

definition reification :: str where
  "reification = [0x7269, 0x5316]"

text \<open>Deconstructionism and structuralism are confused.\<close>

definition confused_deconstruction :: str where
  "confused_deconstruction = [0x6DF7, 0x6DC6, 0x4E86, 0x89E3, 0x6784, 0x4E3B, 0x4E49, 0x548C,
                              0x7ED3, 0x6784, 0x4E3B, 0x4E49]"

text \<open>The notions of sense of things and reification are confused.\<close>

definition confused_wugan :: str where
  "confused_wugan = [0x6DF7, 0x6DC6, 0x4E86, 0x7269, 0x611F, 0x548C, 0x7269, 0x5316, 0x6982, 0x5FF5]"

text \<open>The West, Western.\<close>

definition western :: str where
  "western = [0x897F, 0x65B9]"

text \<open>Theory.\<close>

definition theory_word :: str where
  "theory_word = [0x7406, 0x8BBA]"

text \<open>China, Chinese.\<close>

definition chinese :: str where
  "chinese = [0x4E2D, 0x56FD]"

text \<open>The Wenxin diaolong, a classic of literary criticism.\<close>

definition wenxin_diaolong :: str where
  "wenxin_diaolong = [0x6587, 0x5FC3, 0x96D5, 0x9F99]"

text \<open>Heidegger, in the standard transcription.\<close>

definition haidegeer :: str where
  "haidegeer = [0x6D77, 0x5FB7, 0x683C, 0x5C14]"

text \<open>In-depth review report of a paper in literature, aesthetics or art studies.\<close>

definition report_title :: str where
  "report_title = [0x6587, 0x5B66, 47, 0x7F8E, 0x5B66, 47, 0x827A, 0x672F, 0x5B66, 0x8BBA,
                   0x6587, 0x6DF1, 0x5EA6, 0x5BA1, 0x6838, 0x62A5, 0x544A]"

text \<open>Review date, in bold, with a full-width colon.\<close>

definition date_label :: str where
  "date_label = [42, 42, 0x5BA1, 0x6838, 0x65E5, 0x671F, 42, 42, 0xFF1A]"

text \<open>Step one: diagnosis.\<close>

definition diagnosis_heading :: str where
  "diagnosis_heading = [35, 35, 32, 0x7B2C, 0x4E00, 0x6B65, 0xFF1A, 0x8BCA, 0x65AD,
                        0x7ED3, 0x679C, 10, 10]"

text \<open>List of hard issues.\<close>

definition hard_issues_heading :: str where
  "hard_issues_heading = [35, 35, 35, 32, 0x786C, 0x4F24, 0x5217, 0x8868, 10]"

text \<open>Final assessment.\<close>

definition final_heading :: str where
  "final_heading = [10, 35, 35, 32, 0x6700, 0x7EC8, 0x8BC4, 0x4F30, 10]"

text \<open>The closing paragraph of every report.\<close>

definition final_assessment :: str where
  "final_assessment = [0x8BE5, 0x8BBA, 0x6587, 0x5177, 0x6709, 0x4E00, 0x5B9A, 0x7684, 0x5B66,
                       0x672F, 0x4EF7, 0x503C, 0xFF0C, 0x4F46, 0x5728, 0x7406, 0x8BBA, 0x6DF1,
                       0x5EA6, 0x3001, 0x6587, 0x672C, 0x9610, 0x91CA, 0x548C, 0x5B66, 0x672F,
                       0x8BDD, 0x8BED, 0x7B49, 0x65B9, 0x9762, 0x4ECD, 0x6709, 0x63D0, 0x5347,
                       0x7A7A, 0x95F4, 0x3002, 0x901A, 0x8FC7, 0x4E0A, 0x8FF0, 0x4FEE, 0x6539,
                       0x5EFA, 0x8BAE, 0xFF0C, 0x6709, 0x671B, 0x8FDB, 0x4E00, 0x6B65, 0x589E,
                       0x5F3A, 0x5176, 0x5B66, 0x672F, 0x5F71, 0x54CD, 0x529B, 0x548C, 0x7406,
                       0x8BBA, 0x8D21, 0x732E, 0x3002, 10]"

text \<open>Phenomenology.\<close>

definition phenomenology :: str where
  "phenomenology = [0x73B0, 0x8C61, 0x5B66]"

text \<open>The Shipin, a classic of poetry criticism.\<close>

definition shipin :: str where
  "shipin = [0x8BD7, 0x54C1]"

text \<open>Centripetal compensation.\<close>

definition centripetal_compensation :: str where
  "centripetal_compensation = [0x5411, 0x5FC3, 0x8865, 0x507F]"

text \<open>Existentialism.\<close>

definition existentialism :: str where
  "existentialism = [0x5B58, 0x5728, 0x4E3B, 0x4E49]"

text \<open>Postmodernism.\<close>

definition postmodernism :: str where
  "postmodernism = [0x540E, 0x73B0, 0x4EE3, 0x4E3B, 0x4E49]"

text \<open>Ecological aesthetics.\<close>

definition ecological_aesthetics :: str where
  "ecological_aesthetics = [0x751F, 0x6001, 0x7F8E, 0x5B66]"

text \<open>Digital aesthetics.\<close>

definition digital_aesthetics :: str where
  "digital_aesthetics = [0x6570, 0x5B57, 0x7F8E, 0x5B66]"

text \<open>Media archaeology.\<close>

definition media_archaeology :: str where
  "media_archaeology = [0x5A92, 0x4ECB, 0x8003, 0x53E4, 0x5B66]"

text \<open>Hermeneutics.\<close>

definition hermeneutics :: str where
  "hermeneutics = [0x9610, 0x91CA, 0x5B66]"

text \<open>Reception aesthetics.\<close>

definition reception_aesthetics :: str where
  "reception_aesthetics = [0x63A5, 0x53D7, 0x7F8E, 0x5B66]"

text \<open>New Criticism.\<close>

definition new_criticism :: str where
  "new_criticism = [0x65B0, 0x6279, 0x8BC4]"

text \<open>Cultural studies.\<close>

definition cultural_studies :: str where
  "cultural_studies = [0x6587, 0x5316, 0x7814, 0x7A76]"

text \<open>Feminism.\<close>

definition feminism :: str where
  "feminism = [0x5973, 0x6027, 0x4E3B, 0x4E49]"

text \<open>Postcolonialism.\<close>

definition postcolonialism :: str where
  "postcolonialism = [0x540E, 0x6B96, 0x6C11, 0x4E3B, 0x4E49]"

text \<open>Psychoanalysis.\<close>

definition psychoanalysis :: str where
  "psychoanalysis = [0x7CBE, 0x795E, 0x5206, 0x6790]"

text \<open>Semiotics.\<close>

definition semiotics :: str where
  "semiotics = [0x7B26, 0x53F7, 0x5B66]"

text \<open>Narratology.\<close>

definition narratology :: str where
  "narratology = [0x53D9, 0x4E8B, 0x5B66]"

text \<open>Rhetoric.\<close>

definition rhetoric :: str where
  "rhetoric = [0x4FEE, 0x8F9E, 0x5B66]"

text \<open>Formalism.\<close>

definition formalism :: str where
  "formalism = [0x5F62, 0x5F0F, 0x4E3B, 0x4E49]"

text \<open>Phenomenologism, an incorrect form.\<close>

definition phenomenologism :: str where
  "phenomenologism = [0x73B0, 0x8C61, 0x5B66, 0x4E3B, 0x4E49]"

text \<open>Hegel, in the standard transcription.\<close>

definition heigeer :: str where
  "heigeer = [0x9ED1, 0x683C, 0x5C14]"

text \<open>Deconstruction theory, an incorrect form.\<close>

definition deconstruction_theory :: str where
  "deconstruction_theory = [0x89E3, 0x6784, 0x8BBA]"

text \<open>The annotated Wenxin diaolong.\<close>

definition wenxin_diaolong_zhu :: str where
  "wenxin_diaolong_zhu = [0x6587, 0x5FC3, 0x96D5, 0x9F99, 0x6CE8]"

text \<open>The Renjian cihua, a classic of poetry criticism.\<close>

definition renjian_cihua :: str where
  "renjian_cihua = [0x4EBA, 0x95F4, 0x8BCD, 0x8BDD]"

text \<open>Nietzsche, in the standard transcription.\<close>

definition nicai :: str where
  "nicai = [0x5C3C, 0x91C7]"

text \<open>Too many academic terms, which may hide a poverty of thought.\<close>

definition jargon_overload :: str where
  "jargon_overload = [0x4F7F, 0x7528, 0x4E86, 0x8FC7, 0x591A, 0x7684, 0x5B66, 0x672F, 0x672F,
                      0x8BED, 0xFF0C, 0x53EF, 0x80FD, 0x63A9, 0x76D6, 0x601D, 0x60F3, 0x7684,
                      0x8D2B, 0x7620]"

text \<open>Step two: perspective.\<close>

definition perspective_heading :: str where
  "perspective_heading = [10, 35, 35, 32, 0x7B2C, 0x4E8C, 0x6B65, 0xFF1A, 0x900F,
                          0x89C6, 0x5206, 0x6790, 10, 10]"

text \<open>Core theories.\<close>

definition core_theories_heading :: str where
  "core_theories_heading = [35, 35, 35, 32, 0x6838, 0x5FC3, 0x7406, 0x8BBA, 10]"

text \<open>Assessment of the theoretical lineage.\<close>

definition lineage_heading :: str where
  "lineage_heading = [35, 35, 35, 32, 0x7406, 0x8BBA, 0x8C31, 0x7CFB, 0x8BC4, 0x4F30, 10]"

text \<open>Key literature that is missing.\<close>

definition missing_heading :: str where
  "missing_heading = [10, 35, 35, 35, 32, 0x7F3A, 0x5931, 0x7684, 0x5173,
                      0x952E, 0x6587, 0x732E, 10]"

text \<open>Assessment of the interpretation.\<close>

definition interpretation_heading :: str where
  "interpretation_heading = [10, 35, 35, 35, 32, 0x6587, 0x672C, 0x9610,
                             0x91CA, 0x8BC4, 0x4F30, 10]"

text \<open>Depth.\<close>

definition depth_label :: str where
  "depth_label = [45, 32, 42, 42, 0x6DF1, 0x5EA6, 42, 42, 0xFF1A]"

text \<open>Originality.\<close>

definition originality_label :: str where
  "originality_label = [45, 32, 42, 42, 0x72EC, 0x521B, 0x6027, 42, 42, 0xFF1A]"

text \<open>Issues found.\<close>

definition issues_label :: str where
  "issues_label = [45, 32, 42, 42, 0x5B58, 0x5728, 0x7684, 0x95EE, 0x9898, 42,
                   42, 0xFF1A, 10]"

text \<open>Assessment of the academic position.\<close>

definition position_heading :: str where
  "position_heading = [10, 35, 35, 35, 32, 0x5B66, 0x672F, 0x4F4D, 0x7F6E,
                       0x8BC4, 0x4F30, 10]"

text \<open>Step three: suggested changes.\<close>

definition surgery_heading :: str where
  "surgery_heading = [10, 35, 35, 32, 0x7B2C, 0x4E09, 0x6B65, 0xFF1A, 0x4FEE,
                      0x6539, 0x5EFA, 0x8BAE, 10, 10]"

text \<open>Citation issues.\<close>

definition citation_heading :: str where
  "citation_heading = [35, 35, 35, 32, 0x5F15, 0x6587, 0x95EE, 0x9898, 10]"

text \<open>Issues of discourse.\<close>

definition discourse_heading :: str where
  "discourse_heading = [10, 35, 35, 35, 32, 0x8BDD, 0x8BED, 0x89C4, 0x8303,
                        0x95EE, 0x9898, 10]"

text \<open>Issues of aesthetic logic.\<close>

definition logic_heading :: str where
  "logic_heading = [10, 35, 35, 35, 32, 0x5BA1, 0x7F8E, 0x903B, 0x8F91, 0x95EE,
                    0x9898, 10]"

text \<open>Strategy of restructuring.\<close>

definition restructuring_heading :: str where
  "restructuring_heading = [10, 35, 35, 35, 32, 0x6574, 0x4F53, 0x91CD, 0x6784,
                            0x7B56, 0x7565, 10]"

text \<open>The one academic position every report states.\<close>

definition between_tradition_and_frontier :: str where
  "between_tradition_and_frontier = [0x8BBA, 0x6587, 0x89C2, 0x70B9, 0x5904, 0x4E8E, 0x4F20,
                                     0x7EDF, 0x7814, 0x7A76, 0x4E0E, 0x5F53, 0x4EE3, 0x524D,
                                     0x6CBF, 0x4E4B, 0x95F4, 0xFF0C, 0x5177, 0x6709, 0x4E00,
                                     0x5B9A, 0x7684, 0x5B66, 0x672F, 0x4EF7, 0x503C, 0xFF0C,
                                     0x4F46, 0x7F3A, 0x4E4F, 0x5BF9, 0x6700, 0x65B0, 0x7814,
                                     0x7A76, 0x6210, 0x679C, 0x7684, 0x5173, 0x6CE8]"

text \<open>Join theory and text more closely.\<close>

definition join_theory_and_text :: str where
  "join_theory_and_text = [0x5F3A, 0x5316, 0x7406, 0x8BBA, 0x4E0E, 0x6587, 0x672C, 0x7684, 0x7ED3,
                           0x5408, 0xFF0C, 0x907F, 0x514D, 0x751F, 0x642C, 0x786C, 0x5957]"

text \<open>Add the recent research of the field.\<close>

definition add_recent_research :: str where
  "add_recent_research = [0x8865, 0x5145, 0x8BE5, 0x9886, 0x57DF, 0x7684, 0x6700, 0x65B0, 0x7814,
                          0x7A76, 0x6210, 0x679C]"

text \<open>Attend to contemporary art practice.\<close>

definition attend_to_practice :: str where
  "attend_to_practice = [0x52A0, 0x5F3A, 0x5BF9, 0x5F53, 0x4EE3, 0x827A, 0x672F, 0x5B9E, 0x8DF5,
                         0x7684, 0x89C2, 0x7167]"

text \<open>Use fewer terms of art.\<close>

definition plainer_discourse :: str where
  "plainer_discourse = [0x4F18, 0x5316, 0x5B66, 0x672F, 0x8BDD, 0x8BED, 0xFF0C, 0x907F, 0x514D,
                        0x8FC7, 0x5EA6, 0x4F7F, 0x7528, 0x672F, 0x8BED]"

text \<open>Mind the form and the accuracy of the citations.\<close>

definition mind_the_citations :: str where
  "mind_the_citations = [0x6CE8, 0x610F, 0x5F15, 0x6587, 0x7684, 0x89C4, 0x8303, 0x6027, 0x548C,
                         0x51C6, 0x786E, 0x6027]"

lemmas words [simp] =
  contemporary_art_def digital_art_def medium_def average_def
  deeper_def better_def surface_reading_def forced_theory_def
  no_contemporary_practice_def deconstructionism_def structuralism_def wugan_def
  reification_def confused_deconstruction_def confused_wugan_def western_def
  theory_word_def chinese_def wenxin_diaolong_def haidegeer_def
  report_title_def date_label_def diagnosis_heading_def hard_issues_heading_def
  final_heading_def final_assessment_def
  phenomenology_def shipin_def
  centripetal_compensation_def existentialism_def postmodernism_def ecological_aesthetics_def
  digital_aesthetics_def media_archaeology_def hermeneutics_def reception_aesthetics_def
  new_criticism_def cultural_studies_def feminism_def postcolonialism_def
  psychoanalysis_def semiotics_def narratology_def rhetoric_def
  formalism_def phenomenologism_def heigeer_def deconstruction_theory_def
  wenxin_diaolong_zhu_def renjian_cihua_def nicai_def jargon_overload_def
  perspective_heading_def core_theories_heading_def lineage_heading_def
  missing_heading_def interpretation_heading_def depth_label_def
  originality_label_def issues_label_def position_heading_def
  surgery_heading_def citation_heading_def discourse_heading_def
  logic_heading_def restructuring_heading_def between_tradition_and_frontier_def
  join_theory_and_text_def add_recent_research_def attend_to_practice_def
  plainer_discourse_def mind_the_citations_def

section \<open>Extraction\<close>

text \<open>
  The vocabulary of theory names, in the order of the script: deconstructionism, sense of
  things (wugan), centripetal compensation, phenomenology, existentialism,
  structuralism, postmodernism, ecological aesthetics, digital aesthetics, media
  archaeology, hermeneutics, reception aesthetics, New Criticism, cultural studies,
  feminism, postcolonialism, psychoanalysis, semiotics, narratology, rhetoric,
  formalism.
\<close>

definition theory_keywords :: "str list" where
  "theory_keywords =
     [deconstructionism, wugan, centripetal_compensation, phenomenology, existentialism,
      structuralism, postmodernism, ecological_aesthetics, digital_aesthetics,
      media_archaeology, hermeneutics, reception_aesthetics, new_criticism,
      cultural_studies, feminism, postcolonialism, psychoanalysis, semiotics, narratology,
      rhetoric, formalism]"

text \<open>\<^verbatim>\<open>\b[A-Z][a-zA-Z]*ism\b\<close>\<close>

definition english_theory_pattern :: regex where
  "english_theory_pattern = [Bnd, One (In upper), Rep (In alpha) 0 None, Lit (ascii ''ism''), Bnd]"

text \<open>
  \<open>list(set(found_theories))\<close> removes the duplicates and lists what is left in the
  iteration order of a set of strings. That order follows the strings' hashes, which the
  interpreter salts anew for each process, so the model takes the function from a list
  to the listing of its set as the parameter \<open>set_list\<close>. Whatever the process, the
  listing has no duplicates and holds exactly the elements of the list.
\<close>

definition set_listing :: "(str list \<Rightarrow> str list) \<Rightarrow> bool" where
  "set_listing set_list = (\<forall>xs. distinct (set_list xs) \<and> set (set_list xs) = set xs)"

definition extract_core_theories :: "unicode_tables \<Rightarrow> (str list \<Rightarrow> str list) \<Rightarrow> str \<Rightarrow> str list" where
  "extract_core_theories u set_list paper_content =
     (let found_theories =
            foldl (\<lambda>found theory. if str_in theory paper_content then found @ [theory] else found)
              [] theory_keywords;
          english_theories = re_findall_str u english_theory_pattern paper_content
      in set_list (found_theories @ english_theories))"

record citations =
  chinese_classics :: "str list"
  foreign_texts :: "str list"
  modern_papers :: "str list list"

text \<open>\<^verbatim>\<open>\<guillemotleft>([^\<guillemotright>]+)\<guillemotright>\<close>, with the title brackets U+300A and U+300B for the guillemets.\<close>

definition chinese_classics_pattern :: regex where
  "chinese_classics_pattern = [Lit [0x300A], LParen, Rep (NotIn rquote) 1 None, RParen, Lit [0x300B]]"

text \<open>\<^verbatim>\<open>\b([A-Z][a-zA-Z]+)\b\<close>\<close>

definition foreign_texts_pattern :: regex where
  "foreign_texts_pattern = [Bnd, LParen, One (In upper), Rep (In alpha) 1 None, RParen, Bnd]"

text \<open>
  The citation of a modern paper: an author in ideographs, two bracketed titles (the
  paper and the journal) joined by the full-width comma U+FF0C, a year of four digits
  followed by U+5E74 U+7B2C, and an issue number followed by U+671F.
\<close>

definition modern_papers_pattern :: regex where
  "modern_papers_pattern =
     [LParen, Rep (In ideograph) 1 None, RParen,
      Lit [0x300A], LParen, Rep (NotIn rquote) 1 None, RParen, Lit [0x300B, 0xFF0C, 0x300A],
      LParen, Rep (NotIn rquote) 1 None, RParen, Lit [0x300B],
      LParen, Rep Digit 4 (Some 4), RParen, Lit [0x5E74, 0x7B2C],
      LParen, Rep Digit 1 None, RParen, Lit [0x671F]]"

definition extract_citations :: "unicode_tables \<Rightarrow> str \<Rightarrow> citations" where
  "extract_citations u paper_content =
     \<lparr>chinese_classics = re_findall_str u chinese_classics_pattern paper_content,
      foreign_texts = re_findall_str u foreign_texts_pattern paper_content,
      modern_papers = re_findall u modern_papers_pattern paper_content\<rparr>"

section \<open>Step one: diagnosis\<close>

record hard_issues =
  typos :: "str list"
  citation_errors :: "str list"
  term_misuses :: "str list"

text \<open>
  The typo table is a dictionary, iterated in insertion order: an association list with
  distinct keys. \<open>dict_set\<close> is the assignment \<open>d[k] = v\<close>, which appends a new key and
  overwrites the value of an old one.
\<close>

text \<open>
  The entries, incorrect form first: phenomenologism for phenomenology, Hegel for
  Heidegger, deconstruction theory for deconstructionism, an annotated edition's title
  for the title of the Wenxin diaolong.
\<close>

definition common_typos :: "(str \<times> str) list" where
  "common_typos =
     [(phenomenologism, phenomenology),
      (heigeer, haidegeer),
      (deconstruction_theory, deconstructionism),
      (wenxin_diaolong_zhu, wenxin_diaolong)]"

fun dict_set :: "('k \<times> 'v) list \<Rightarrow> 'k \<Rightarrow> 'v \<Rightarrow> ('k \<times> 'v) list" where
  "dict_set [] k v = [(k, v)]"
| "dict_set ((k', v') # d) k v = (if k' = k then (k, v) # d else (k', v') # dict_set d k v)"

text \<open>The issue names both forms, each between ASCII double quotes.\<close>

definition typo_issue :: "str \<Rightarrow> str \<Rightarrow> str" where
  "typo_issue typo correct = [0x5C06, 34] @ typo @ [34, 0x8BEF, 0x5199, 0x4E3A, 34] @ correct @ [34]"

text \<open>
  The two confusion patterns: each asks for its first term and, later on the same line,
  its second term, every one of the four between two \<open>\b\<close>.
\<close>

definition deconstruction_structuralism :: regex where
  "deconstruction_structuralism =
     [Bnd, Lit deconstructionism, Bnd, Rep Dot 0 None, Bnd, Lit structuralism, Bnd]"

definition wugan_reification :: regex where
  "wugan_reification = [Bnd, Lit wugan, Bnd, Rep Dot 0 None, Bnd, Lit reification, Bnd]"

definition term_misuses_patterns :: "(regex \<times> str) list" where
  "term_misuses_patterns =
     [(deconstruction_structuralism, confused_deconstruction),
      (wugan_reification, confused_wugan)]"

text \<open>The body of \<open>diagnose_paper\<close>, over the two tables it builds.\<close>

definition diagnose_with :: "(str \<times> str) list \<Rightarrow> (regex \<times> str) list \<Rightarrow> unicode_tables \<Rightarrow> str \<Rightarrow> hard_issues" where
  "diagnose_with typo_table patterns u paper_content =
     (let hard = \<lparr>typos = [], citation_errors = [], term_misuses = []\<rparr>;
          hard = foldl (\<lambda>h (typo, correct).
                    if str_in typo paper_content
                    then h\<lparr>typos := typos h @ [typo_issue typo correct]\<rparr> else h)
                   hard typo_table;
          hard = foldl (\<lambda>h (pattern, description).
                    if re_search u pattern None paper_content
                    then h\<lparr>term_misuses := term_misuses h @ [description]\<rparr> else h)
                   hard patterns
      in hard)"

definition diagnose_paper :: "unicode_tables \<Rightarrow> str \<Rightarrow> hard_issues" where
  "diagnose_paper u paper_content = diagnose_with common_typos term_misuses_patterns u paper_content"

section \<open>Step two: perspective\<close>

record theoretical_analysis =
  solid_theories :: "str list"
  missing_literature :: "str list"

text \<open>
  The two curated buckets: deconstructionism and phenomenology; sense of things and
  centripetal compensation.
\<close>

definition western_canon :: "str list" where
  "western_canon = [deconstructionism, phenomenology]"

definition chinese_canon :: "str list" where
  "chinese_canon = [wugan, centripetal_compensation]"

text \<open>The sentence templates of the lineage analysis.\<close>

definition lineage_clear :: "str \<Rightarrow> str" where
  "lineage_clear theory = [0x7406, 0x8BBA, 34] @ theory @ [34, 0x7684, 0x8C31, 0x7CFB, 0x8F83,
        0x4E3A, 0x6E05, 0x6670, 0xFF0C, 0x4F46, 0x9700, 0x8865, 0x5145, 0x6700, 0x65B0, 0x7814,
        0x7A76, 0x6210, 0x679C]"

definition recent_research :: "str \<Rightarrow> str" where
  "recent_research theory = theory @ [0x9886, 0x57DF, 0x7684, 0x6700, 0x65B0, 0x7814, 0x7A76,
                                      0xFF1A, 0x5F20, 0x4E09, 0x300A] @ theory @ [0x7684, 0x5F53,
        0x4EE3, 0x8F6C, 0x5411, 0x300B, 0xFF0C, 50, 48, 50, 52]"

definition chinese_character :: "str \<Rightarrow> str" where
  "chinese_character theory = [0x7406, 0x8BBA, 34] @ theory @ [34, 0x7684, 0x4E2D, 0x56FD,
        0x7279, 0x8272, 0x9C9C, 0x660E, 0xFF0C, 0x4F46, 0x9700, 0x52A0, 0x5F3A, 0x4E0E, 0x897F,
        0x65B9, 0x7406, 0x8BBA, 0x7684, 0x5BF9, 0x8BDD]"

definition comparative_study :: "str \<Rightarrow> str" where
  "comparative_study theory = theory @ [0x4E0E, 0x897F, 0x65B9, 0x73B0, 0x8C61, 0x5B66, 0x6BD4,
                                        0x8F83, 0x7814, 0x7A76, 0xFF1A, 0x674E, 0x56DB, 0x300A,
                                        0x4ECE] @ theory @ [0x5230, 0x73B0, 0x8C61, 0x5B66, 0x300B,
        0xFF0C, 50, 48, 50, 51]"

definition basically_sound :: "str \<Rightarrow> str" where
  "basically_sound theory = [0x7406, 0x8BBA, 34] @ theory @ [34, 0x7684, 0x8FD0, 0x7528, 0x57FA, 0x672C, 0x5408, 0x7406]"

text \<open>The body of the loop over the theories.\<close>

definition lineage_step :: "theoretical_analysis \<Rightarrow> str \<Rightarrow> theoretical_analysis" where
  "lineage_step a theory =
     (if theory \<in> set western_canon then
        a\<lparr>solid_theories := solid_theories a @ [lineage_clear theory],
          missing_literature := missing_literature a @ [recent_research theory]\<rparr>
      else if theory \<in> set chinese_canon then
        a\<lparr>solid_theories := solid_theories a @ [chinese_character theory],
          missing_literature := missing_literature a @ [comparative_study theory]\<rparr>
      else
        a\<lparr>solid_theories := solid_theories a @ [basically_sound theory]\<rparr>)"

definition analyze_theoretical_lineage :: "str list \<Rightarrow> theoretical_analysis" where
  "analyze_theoretical_lineage theories =
     foldl lineage_step \<lparr>solid_theories = [], missing_literature = []\<rparr> theories"

record evaluation =
  depth :: str
  originality :: str
  issues :: "str list"

text \<open>
  The baseline: depth medium, originality average, and three stock issues, the last of
  which is the lack of attention to contemporary art practice.
\<close>

definition baseline_evaluation :: evaluation where
  "baseline_evaluation =
     \<lparr>depth = medium, originality = average,
      issues = [surface_reading,
                forced_theory,
                no_contemporary_practice]\<rparr>"

definition evaluate_interpretation :: "str \<Rightarrow> error + evaluation" where
  "evaluate_interpretation paper_content =
     (let ev = baseline_evaluation
      in if str_in contemporary_art paper_content \<or> str_in digital_art paper_content
         then (case list_remove no_contemporary_practice (issues ev) of
                 Inl e \<Rightarrow> Inl e
               | Inr rest \<Rightarrow> Inr (ev\<lparr>depth := deeper, originality := better, issues := rest\<rparr>))
         else Inr ev)"

section \<open>Step three: surgery\<close>

text \<open>
  The canonical works (Wenxin diaolong, Shipin, Renjian cihua) and the table of standard
  translations of the names Heidegger, Hegel and Nietzsche.
\<close>

definition canonical_classics :: "str list" where
  "canonical_classics = [wenxin_diaolong, shipin, renjian_cihua]"

definition common_mistranslations :: "(str \<times> str) list" where
  "common_mistranslations =
     [((ascii ''Heidegger''), haidegeer), ((ascii ''Hegel''), heigeer), ((ascii ''Nietzsche''), nicai)]"

definition edition_reminder :: "str \<Rightarrow> str" where
  "edition_reminder classic = [0x300A] @ classic @ [0x300B, 0x5F15, 0x7528, 0x65F6, 0x5E94, 0x6807,
        0x6CE8, 0x5177, 0x4F53, 0x7248, 0x672C, 0x548C, 0x9875, 0x7801]"

definition translation_notice :: "str \<Rightarrow> str \<Rightarrow> str" where
  "translation_notice foreign_text standard =
     foreign_text @ [0x7684, 0x6807, 0x51C6, 0x8BD1, 0x540D, 0x4E3A, 34] @ standard @ [34,
        0xFF0C, 0x8BF7, 0x68C0, 0x67E5, 0x8BD1, 0x540D, 0x662F, 0x5426, 0x89C4, 0x8303]"

definition check_citations_accuracy :: "citations \<Rightarrow> str list" where
  "check_citations_accuracy cs =
     (let citation_issues = [];
          citation_issues =
            foldl (\<lambda>acc classic.
                     if classic \<in> set canonical_classics then acc @ [edition_reminder classic] else acc)
              citation_issues (chinese_classics cs);
          citation_issues =
            foldl (\<lambda>acc foreign_text.
                     case map_of common_mistranslations foreign_text of
                       Some standard \<Rightarrow> acc @ [translation_notice foreign_text standard]
                     | None \<Rightarrow> acc)
              citation_issues (foreign_texts cs)
      in citation_issues)"

record aesthetics =
  discourse_issues :: "str list"
  logic_issues :: "str list"

text \<open>
  The jargon pattern: a run of ideographs, then one character of a bracketed class, which
  holds the ten characters of the five suffixes and the bar between them, between two
  \<open>\b\<close>.
\<close>

definition jargon_pattern :: regex where
  "jargon_pattern =
     [Bnd, Rep (In ideograph) 1 None,
      One (In (map (\<lambda>c. (c, c)) [0x4E3B, 0x4E49, 124, 0x7406, 0x8BBA, 124, 0x8F6C,
                                         0x5411, 124, 0x7EF4, 0x5EA6, 124, 0x8C31, 0x7CFB])), Bnd]"

text \<open>The transplant pattern: the three words in this order on one line.\<close>

definition transplant_pattern :: regex where
  "transplant_pattern = [Lit western, Rep Dot 0 None, Lit theory_word, Rep Dot 0 None, Lit chinese]"

definition transplant_warning :: str where
  "transplant_warning = [0x5B58, 0x5728, 0x5C06, 0x897F, 0x65B9, 0x7406, 0x8BBA, 0x76F4, 0x63A5,
                         0x5957, 0x7528, 0x4E8E, 0x4E2D, 0x56FD, 0x827A, 0x672F, 0x5B9E, 0x8DF5,
                         0x7684, 0x503E, 0x5411, 0xFF0C, 0x9700, 0x6CE8, 0x610F, 0x907F, 0x514D,
                         0x7406, 0x8BBA, 0x6B96, 0x6C11]"

definition review_aesthetic_logic :: "unicode_tables \<Rightarrow> str \<Rightarrow> aesthetics" where
  "review_aesthetic_logic u paper_content =
     (let jargon_count = length (re_findall u jargon_pattern paper_content);
          discourse = (if 20 < jargon_count then [jargon_overload] else []);
          logic = (if str_in western paper_content \<and> str_in chinese paper_content
                   then (if re_search u transplant_pattern None paper_content
                         then [transplant_warning] else [])
                   else [])
      in \<lparr>discourse_issues = discourse, logic_issues = logic\<rparr>)"

section \<open>The report\<close>

record perspective =
  core_theories :: "str list"
  theoretical_lineage :: theoretical_analysis
  interpretation_evaluation :: evaluation
  academic_position :: str

record surgery =
  citation_issues :: "str list"
  aesthetic_analysis :: aesthetics
  restructuring_suggestions :: "str list"

record report =
  title :: str
  date :: str
  diagnosis :: hard_issues
  perspective :: perspective
  surgery :: surgery

text \<open>
  \<open>generate_review_report\<close>. The clock's reading, formatted, is the parameter \<open>now\<close>; the
  progress lines the function prints are left out. The only statement that can raise
  is the \<open>remove\<close> in \<open>evaluate_interpretation\<close>.
\<close>

definition generate_review_report :: "unicode_tables \<Rightarrow> (str list \<Rightarrow> str list) \<Rightarrow> str \<Rightarrow> str \<Rightarrow> error + report" where
  "generate_review_report u set_list now paper_content =
     (let hard = diagnose_paper u paper_content;
          theories = extract_core_theories u set_list paper_content;
          cites = extract_citations u paper_content;
          lineage = analyze_theoretical_lineage theories
      in case evaluate_interpretation paper_content of
           Inl e \<Rightarrow> Inl e
         | Inr ev \<Rightarrow>
             Inr \<lparr>title = report_title,
                  date = now,
                  diagnosis = hard,
                  perspective =
                    \<lparr>core_theories = theories,
                     theoretical_lineage = lineage,
                     interpretation_evaluation = ev,
                     academic_position = between_tradition_and_frontier\<rparr>,
                  surgery =
                    \<lparr>citation_issues = check_citations_accuracy cites,
                     aesthetic_analysis = review_aesthetic_logic u paper_content,
                     restructuring_suggestions =
                       [join_theory_and_text,
                        add_recent_research,
                        attend_to_practice,
                        plainer_discourse,
                        mind_the_citations]\<rparr>\<rparr>)"

subsection \<open>Rendering\<close>

text \<open>A loop that appends one line per entry: \<open>prefix\<close>, the entry, a newline.\<close>

definition append_lines :: "str \<Rightarrow> str list \<Rightarrow> str \<Rightarrow> str" where
  "append_lines pre xs out = foldl (\<lambda>acc x. acc @ pre @ x @ [10]) out xs"

definition no_hard_issues :: str where
  "no_hard_issues = [45, 32, 0x672A, 0x53D1, 0x73B0, 0x660E, 0x663E, 0x7684, 0x786C, 0x4F24, 10]"

text \<open>The diagnosis section: its heading, then the issues by kind or the fallback line.\<close>

definition format_diagnosis :: "hard_issues \<Rightarrow> str" where
  "format_diagnosis hard =
     (let out = diagnosis_heading;
          items = [((ascii ''typos''), typos hard), ((ascii ''citation_errors''), citation_errors hard),
                   ((ascii ''term_misuses''), term_misuses hard)]
      in if list_ex (\<lambda>(issue_type, found). found \<noteq> []) items
         then foldl (\<lambda>acc (issue_type, found).
                       if found \<noteq> []
                       then append_lines (ascii ''  - '') found (acc @ (ascii ''- **'') @ issue_type @ [42, 42, 0xFF1A, 10])
                       else acc)
                (out @ hard_issues_heading) items
         else out @ hard_issues_heading @ no_hard_issues)"

definition format_perspective :: "perspective \<Rightarrow> str" where
  "format_perspective pv =
     (let out = perspective_heading;
          out = out @ core_theories_heading;
          out = out @ (ascii ''- '') @ join (ascii '', '') (core_theories pv) @ [10, 10];
          out = out @ lineage_heading;
          out = append_lines (ascii ''- '') (solid_theories (theoretical_lineage pv)) out;
          out = out @ missing_heading;
          out = append_lines (ascii ''- '') (missing_literature (theoretical_lineage pv)) out;
          out = out @ interpretation_heading;
          out = out @ depth_label @ depth (interpretation_evaluation pv) @ [10];
          out = out @ originality_label @ originality (interpretation_evaluation pv) @ [10];
          out = out @ issues_label;
          out = append_lines (ascii ''  - '') (issues (interpretation_evaluation pv)) out;
          out = out @ position_heading;
          out = out @ academic_position pv @ [10]
      in out)"

definition format_surgery :: "surgery \<Rightarrow> str" where
  "format_surgery sg =
     (let out = surgery_heading;
          out = (if citation_issues sg \<noteq> []
                 then append_lines (ascii ''- '') (citation_issues sg) (out @ citation_heading) else out);
          out = (if discourse_issues (aesthetic_analysis sg) \<noteq> []
                 then append_lines (ascii ''- '') (discourse_issues (aesthetic_analysis sg)) (out @ discourse_heading)
                 else out);
          out = (if logic_issues (aesthetic_analysis sg) \<noteq> []
                 then append_lines (ascii ''- '') (logic_issues (aesthetic_analysis sg)) (out @ logic_heading)
                 else out);
          out = out @ restructuring_heading;
          out = append_lines (ascii ''- '') (restructuring_suggestions sg) out
      in out)"

definition format_report :: "report \<Rightarrow> str" where
  "format_report r =
     (ascii ''# '') @ title r @ [10, 10] @
     date_label @ date r @ [10, 10] @
     format_diagnosis (diagnosis r) @
     format_perspective (perspective r) @
     format_surgery (surgery r) @
     final_heading @
     final_assessment"

section \<open>Notions of the statements\<close>

text \<open>The number of issues a diagnosis holds, over its three lists.\<close>

definition issue_count :: "hard_issues \<Rightarrow> nat" where
  "issue_count h = length (typos h) + length (citation_errors h) + length (term_misuses h)"


text \<open>The pattern matches at a position: the matcher, anchored there, succeeds.\<close>

definition accepts :: "unicode_tables \<Rightarrow> regex \<Rightarrow> nat option \<Rightarrow> str \<Rightarrow> bool" where
  "accepts u re p r = (re_match u re p r \<noteq> None)"

text \<open>
  The three words occur in this order, and neither gap between them holds a newline.
\<close>

definition in_order_on_lines :: "str \<Rightarrow> str \<Rightarrow> str \<Rightarrow> str \<Rightarrow> bool" where
  "in_order_on_lines x y z s =
     (\<exists>a b c d. s = a @ x @ b @ y @ c @ z @ d \<and> 10 \<notin> set b \<and> 10 \<notin> set c)"

text \<open>
  A text ends in a word character; a text begins with one. At the two ends of the whole
  text there is no character, hence no word character.
\<close>

definition word_before :: "unicode_tables \<Rightarrow> str \<Rightarrow> bool" where
  "word_before u a = (a \<noteq> [] \<and> is_word u (last a))"

definition word_after :: "unicode_tables \<Rightarrow> str \<Rightarrow> bool" where
  "word_after u c = (c \<noteq> [] \<and> is_word u (hd c))"

text \<open>
  The two terms occur in this order, each as a word of its own: no word character
  touches either term on either side, so the gap between them is not empty and begins
  and ends with a character that is no word character, and the gap holds no newline.
\<close>

definition apart_on_line :: "unicode_tables \<Rightarrow> str \<Rightarrow> str \<Rightarrow> str \<Rightarrow> bool" where
  "apart_on_line u x y s =
     (\<exists>a b c. s = a @ x @ b @ y @ c \<and> \<not> word_before u a \<and>
        b \<noteq> [] \<and> \<not> is_word u (hd b) \<and> \<not> is_word u (last b) \<and> 10 \<notin> set b \<and>
        \<not> word_after u c)"

text \<open>
  Every opening title bracket of the text is followed, somewhere in the text, by a
  closing one.
\<close>

fun titles_closed :: "str \<Rightarrow> bool" where
  "titles_closed [] = True"
| "titles_closed (c # cs) = ((if c = 0x300A then 0x300B \<in> set cs else True) \<and> titles_closed cs)"

text \<open>
  A bracketed title of the text \<open>s\<close>: the text before it, the title between the
  brackets, and the text behind it. The title is not empty and holds no closing bracket.
\<close>

definition title_span :: "str \<Rightarrow> str \<Rightarrow> str \<Rightarrow> str \<Rightarrow> bool" where
  "title_span s a y b = (s = a @ [0x300A] @ y @ [0x300B] @ b \<and> y \<noteq> [] \<and> 0x300B \<notin> set y)"

text \<open>A text that holds no bracketed title.\<close>

definition span_free :: "str \<Rightarrow> bool" where
  "span_free s = (\<forall>a y b. \<not> title_span s a y b)"

text \<open>
  The same, computed: some opening bracket is followed by a character other than the
  closing bracket and, behind that, by a closing bracket.
\<close>

fun has_span :: "str \<Rightarrow> bool" where
  "has_span (c # d # cs) = ((c = 0x300A \<and> d \<noteq> 0x300B \<and> 0x300B \<in> set cs) \<or> has_span (d # cs))"
| "has_span [c] = False"
| "has_span [] = False"
section \<open>Example texts\<close>

text \<open>The texts at which the witnesses and the counterexamples below evaluate the script.\<close>

text \<open>Deconstructionism and phenomenology.\<close>

definition two_theories_text :: str where
  "two_theories_text = deconstructionism @ [0x4E0E] @ phenomenology"

text \<open>This paper mixes deconstructionism and structuralism: running text, ideographs only.\<close>

definition running_text :: str where
  "running_text = [0x672C, 0x6587, 0x6DF7, 0x7528] @ deconstructionism @ [0x548C] @ structuralism"

text \<open>The two terms with a slash between two blanks between them.\<close>

definition slash_text :: str where
  "slash_text = deconstructionism @ (ascii '' / '') @ structuralism"

text \<open>The name, the particle U+7684 directly behind it, and the bracketed title.\<close>

definition name_in_running_text :: str where
  "name_in_running_text = (ascii ''Heidegger'') @ [0x7684] @ [0x300A] @ wenxin_diaolong @ [0x300B]"

text \<open>The name between two blanks, then two bracketed titles and a full stop.\<close>

definition spaced_name_text :: str where
  "spaced_name_text = [0x89C1, 32] @ (ascii ''Heidegger'') @ [32, 0x4E0E] @ [0x300A] @ shipin @ [0x300B] @
     [0x300A] @ wenxin_diaolong @ [0x300B] @ [0x3002]"

text \<open>On the sense of things of digital art.\<close>

definition digital_art_text :: str where
  "digital_art_text = [0x8BBA] @ digital_art @ [0x7684] @ wugan"

text \<open>On the sense of things.\<close>

definition wugan_text :: str where
  "wugan_text = [0x8BBA] @ wugan"

text \<open>
  One bracketed title: an empty pair of brackets before it, a stray closing bracket and
  an opening bracket left open behind it.
\<close>

definition one_title_text :: str where
  "one_title_text = [0x300A, 0x300B] @ [0x300A] @ shipin @ [0x300B] @ [0x300B, 0x89C1, 0x300A]"

text \<open>An annotated Shipin: a form the typo table does not hold.\<close>

definition shipin_zhu :: str where
  "shipin_zhu = shipin @ [0x6CE8]"

text \<open>A text that holds this form.\<close>

definition typo_text :: str where
  "typo_text = [0x89C1] @ shipin_zhu @ [0x3002]"

text \<open>Western theory, a line break, Chinese art.\<close>

definition two_lines_text :: str where
  "two_lines_text = western @ theory_word @ [10] @ chinese @ [0x827A, 0x672F]"

text \<open>Explaining Chinese painting with Western theory, on one line.\<close>

definition one_line_text :: str where
  "one_line_text = [0x7528] @ western @ [0x7684] @ theory_word @ [0x89E3, 0x91CA] @ chinese @ [0x7ED8, 0x753B]"

lemmas examples [simp] =
  two_theories_text_def running_text_def slash_text_def name_in_running_text_def
  spaced_name_text_def digital_art_text_def wugan_text_def one_title_text_def
  shipin_zhu_def typo_text_def two_lines_text_def one_line_text_def

section \<open>Evaluation\<close>

text \<open>The definitions that unfold when a pattern is run on a concrete text.\<close>

lemmas re_eval = re_findall_str_def re_findall_def re_match_def at_boundary_def is_word_def
  is_decimal_def cjk_def plain_tables_def in_ranges_def run_len_def prev_after_def
  match_groups_def ascii_def

section \<open>Loops that append\<close>

lemma foldl_append_if:
  "foldl (\<lambda>acc x. if P x then acc @ [f x] else acc) a xs = a @ map f (filter P xs)"
  by (induction xs arbitrary: a) simp_all

lemma typos_loop:
  "foldl (\<lambda>h (typo, correct).
            if str_in typo s then h\<lparr>typos := typos h @ [typo_issue typo correct]\<rparr> else h) h0 tbl
   = h0\<lparr>typos := typos h0 @ map (\<lambda>(typo, correct). typo_issue typo correct)
                              (filter (\<lambda>(typo, correct). str_in typo s) tbl)\<rparr>"
  by (induction tbl arbitrary: h0) (simp_all add: case_prod_beta)

lemma misuses_loop:
  "foldl (\<lambda>h (pattern, description).
            if re_search u pattern None s
            then h\<lparr>term_misuses := term_misuses h @ [description]\<rparr> else h) h0 pats
   = h0\<lparr>term_misuses := term_misuses h0 @
             map snd (filter (\<lambda>(pattern, description). re_search u pattern None s) pats)\<rparr>"
  by (induction pats arbitrary: h0) (simp_all add: case_prod_beta)

lemma diagnose_with_closed:
  "diagnose_with tbl pats u s =
     \<lparr>typos = map (\<lambda>(typo, correct). typo_issue typo correct)
                (filter (\<lambda>(typo, correct). str_in typo s) tbl),
      citation_errors = [],
      term_misuses = map snd (filter (\<lambda>(pattern, description). re_search u pattern None s) pats)\<rparr>"
  by (simp add: diagnose_with_def typos_loop misuses_loop)

lemma dict_set_new: "k \<notin> fst ` set d \<Longrightarrow> dict_set d k v = d @ [(k, v)]"
  by (induction d) auto

lemma lineage_loop:
  "foldl lineage_step a ts =
     \<lparr>solid_theories = solid_theories a @
        map (\<lambda>t. if t \<in> set western_canon then lineage_clear t
                 else if t \<in> set chinese_canon then chinese_character t
                 else basically_sound t) ts,
      missing_literature = missing_literature a @
        map (\<lambda>t. if t \<in> set western_canon then recent_research t else comparative_study t)
          (filter (\<lambda>t. t \<in> set western_canon \<or> t \<in> set chinese_canon) ts)\<rparr>"
proof (induction ts arbitrary: a)
  case Nil
  show ?case by simp
next
  case (Cons t ts)
  show ?case
    unfolding foldl_Cons Cons.IH by (simp add: lineage_step_def)
qed

section \<open>The diagnosis\<close>

text \<open>
  C10. Whatever the text, the record \<open>diagnose_paper\<close> returns has its
  \<open>citation_errors\<close> list, and the list is empty: the two loops append to \<open>typos\<close> and to
  \<open>term_misuses\<close> only, so every issue of the diagnosis is one of those two lists'.
\<close>

theorem citation_errors_always_empty:
  "citation_errors (diagnose_paper u s) = [] \<and>
   typos (diagnose_paper u s) =
     map (\<lambda>(typo, correct). typo_issue typo correct)
       (filter (\<lambda>(typo, correct). str_in typo s) common_typos) \<and>
   term_misuses (diagnose_paper u s) =
     map snd (filter (\<lambda>(pattern, description). re_search u pattern None s) term_misuses_patterns)"
  by (simp add: diagnose_paper_def diagnose_with_closed)

text \<open>
  C7. Take any text, any typo table and any list of confusion patterns. An entry under a
  key the table does not hold yet, whose incorrect form occurs in the text, makes the
  diagnosis exactly one issue longer: the new issue stands last in \<open>typos\<close>, behind the
  issues of the old entries, which are unchanged, as is the list \<open>term_misuses\<close>.
\<close>

theorem typo_entry_adds_one_issue:
  assumes "typo \<notin> fst ` set tbl" and "str_in typo s"
  shows "issue_count (diagnose_with (dict_set tbl typo correct) pats u s) =
           issue_count (diagnose_with tbl pats u s) + 1 \<and>
         typos (diagnose_with (dict_set tbl typo correct) pats u s) =
           typos (diagnose_with tbl pats u s) @ [typo_issue typo correct] \<and>
         term_misuses (diagnose_with (dict_set tbl typo correct) pats u s) =
           term_misuses (diagnose_with tbl pats u s)"
  using assms by (simp add: dict_set_new diagnose_with_closed issue_count_def)

theorem typo_entry_adds_one_issue_witness:
  "shipin_zhu \<notin> fst ` set common_typos \<and> str_in shipin_zhu typo_text \<and>
   issue_count (diagnose_with (dict_set common_typos shipin_zhu shipin) term_misuses_patterns
                  plain_tables typo_text) =
     issue_count (diagnose_paper plain_tables typo_text) + 1 \<and>
   typos (diagnose_with (dict_set common_typos shipin_zhu shipin) term_misuses_patterns
            plain_tables typo_text) = [typo_issue shipin_zhu shipin]"
proof -
  have new: "shipin_zhu \<notin> fst ` set common_typos"
    by (simp add: common_typos_def)
  have occurs: "str_in shipin_zhu typo_text"
    by simp
  have old: "typos (diagnose_paper plain_tables typo_text) = []"
    by (simp add: diagnose_paper_def diagnose_with_closed common_typos_def)
  show ?thesis
    using typo_entry_adds_one_issue [OF new occurs, of "shipin" term_misuses_patterns plain_tables]
      new occurs old
    by (simp add: diagnose_paper_def)
qed

section \<open>The lineage analysis\<close>

text \<open>
  C5. For every list of theory terms, \<open>analyze_theoretical_lineage\<close> puts one sentence
  per term into \<open>solid_theories\<close>, in the order of the terms, from the template of the
  term's bucket; and it puts one recommended reading into \<open>missing_literature\<close> for each
  term of the Western canon or of the Chinese canon, and nothing for any other term.
\<close>

theorem lineage_one_sentence_per_term:
  "solid_theories (analyze_theoretical_lineage ts) =
     map (\<lambda>t. if t \<in> set western_canon then lineage_clear t
              else if t \<in> set chinese_canon then chinese_character t
              else basically_sound t) ts \<and>
   missing_literature (analyze_theoretical_lineage ts) =
     map (\<lambda>t. if t \<in> set western_canon then recent_research t else comparative_study t)
       (filter (\<lambda>t. t \<in> set western_canon \<or> t \<in> set chinese_canon) ts) \<and>
   length (solid_theories (analyze_theoretical_lineage ts)) = length ts"
  by (simp add: analyze_theoretical_lineage_def lineage_loop)

section \<open>The interpretation\<close>

lemma evaluate_interpretation_closed:
  "evaluate_interpretation s =
     Inr (if str_in contemporary_art s \<or> str_in digital_art s
          then \<lparr>depth = deeper, originality = better,
                issues = [surface_reading,
                          forced_theory]\<rparr>
          else baseline_evaluation)"
  by (simp add: evaluate_interpretation_def baseline_evaluation_def list_remove_def)

text \<open>
  C4. For every text that contains U+5F53 U+4EE3 U+827A U+672F (contemporary art) or
  U+6570 U+5B57 U+827A U+672F (digital art), \<open>evaluate_interpretation\<close> returns, without
  raising, the depth U+8F83 U+6DF1 and the originality U+8F83 U+597D, and its issues
  are the first two stock issues: the one on contemporary practice is gone. For every
  other text it returns the baseline: depth U+4E2D U+7B49, originality U+4E00 U+822C
  and the three stock issues.
\<close>

theorem interpretation_upgrade:
  "(str_in contemporary_art s \<or> str_in digital_art s \<longrightarrow>
      (\<exists>ev. evaluate_interpretation s = Inr ev \<and> depth ev = deeper \<and> originality ev = better \<and>
            no_contemporary_practice \<notin> set (issues ev) \<and>
            issues ev = [surface_reading,
                         forced_theory])) \<and>
   (\<not> str_in contemporary_art s \<and> \<not> str_in digital_art s \<longrightarrow>
      evaluate_interpretation s =
        Inr \<lparr>depth = medium, originality = average,
             issues = [surface_reading,
                       forced_theory,
                       no_contemporary_practice]\<rparr>)"
  by (simp add: evaluate_interpretation_closed baseline_evaluation_def)

theorem interpretation_upgrade_witness:
  "str_in digital_art digital_art_text \<and>
   (\<exists>ev. evaluate_interpretation digital_art_text = Inr ev \<and> depth ev = deeper \<and>
         no_contemporary_practice \<notin> set (issues ev)) \<and>
   \<not> str_in contemporary_art wugan_text \<and> \<not> str_in digital_art wugan_text \<and>
   depth (projr (evaluate_interpretation wugan_text)) = medium"
proof -
  have a: "str_in digital_art digital_art_text"
    by simp
  have b: "\<not> str_in contemporary_art wugan_text \<and> \<not> str_in digital_art wugan_text"
    by simp
  show ?thesis
    using interpretation_upgrade [of "digital_art_text"] interpretation_upgrade [of "wugan_text"] a b
    by auto
qed

section \<open>The empty manuscript\<close>

lemma set_listing_Nil:
  assumes "set_listing sl"
  shows "sl [] = []"
proof -
  have "set (sl []) = set []"
    using assms unfolding set_listing_def by blast
  then show ?thesis by simp
qed

lemma findall_empty_text:
  "re_findall u english_theory_pattern [] = []"
  "re_findall u chinese_classics_pattern [] = []"
  "re_findall u foreign_texts_pattern [] = []"
  "re_findall u modern_papers_pattern [] = []"
  "re_findall u jargon_pattern [] = []"
  by (simp_all add: re_findall_def re_match_def english_theory_pattern_def
      chinese_classics_pattern_def foreign_texts_pattern_def modern_papers_pattern_def
      jargon_pattern_def at_boundary_def run_len_def)

lemma match_empty_text:
  "re_match u deconstruction_structuralism None [] = None"
  "re_match u wugan_reification None [] = None"
  by (simp_all add: re_match_def deconstruction_structuralism_def wugan_reification_def at_boundary_def)

lemma diagnose_empty_text:
  "diagnose_paper u [] = \<lparr>typos = [], citation_errors = [], term_misuses = []\<rparr>"
  by (simp add: diagnose_paper_def diagnose_with_closed common_typos_def term_misuses_patterns_def
      match_empty_text)

lemma format_diagnosis_fallback:
  "format_diagnosis \<lparr>typos = [], citation_errors = [], term_misuses = []\<rparr> =
     diagnosis_heading @ hard_issues_heading @ no_hard_issues"
  by (simp add: format_diagnosis_def)

text \<open>
  C9. For the empty text the extracted theory terms are none, whatever the listing of
  the set, so the report's list of core theories is empty; the report is produced
  without an error, its diagnosis holds no issue, and the diagnosis section of the
  rendered report is the heading followed by the fallback line that no hard issue was
  found.
\<close>

theorem empty_text_report:
  assumes "set_listing set_list"
  shows "extract_core_theories u set_list [] = [] \<and>
         (\<exists>r. generate_review_report u set_list now [] = Inr r \<and>
              core_theories (perspective r) = [] \<and>
              diagnosis r = \<lparr>typos = [], citation_errors = [], term_misuses = []\<rparr> \<and>
              format_diagnosis (diagnosis r) =
                diagnosis_heading @ hard_issues_heading @ no_hard_issues \<and>
              format_report r =
                (ascii ''# '') @ report_title @ [10, 10] @ date_label @ now @ [10, 10] @
                diagnosis_heading @ hard_issues_heading @ no_hard_issues @
                format_perspective (perspective r) @ format_surgery (surgery r) @
                final_heading @
                final_assessment)"
proof -
  have theories: "extract_core_theories u set_list [] = []"
    by (simp add: extract_core_theories_def theory_keywords_def re_findall_str_def
        findall_empty_text set_listing_Nil [OF assms])
  obtain ev where ev: "evaluate_interpretation [] = Inr ev"
    by (simp add: evaluate_interpretation_closed)
  define r where "r = projr (generate_review_report u set_list now [])"
  have gen: "generate_review_report u set_list now [] = Inr r"
    by (simp add: r_def generate_review_report_def Let_def ev)
  have core: "core_theories (perspective r) = []"
    by (simp add: r_def generate_review_report_def Let_def ev theories)
  have diag: "diagnosis r = \<lparr>typos = [], citation_errors = [], term_misuses = []\<rparr>"
    by (simp add: r_def generate_review_report_def Let_def ev diagnose_empty_text)
  have ttl: "title r = report_title" and dt: "date r = now"
    by (simp_all add: r_def generate_review_report_def Let_def ev)
  have fd: "format_diagnosis (diagnosis r) = diagnosis_heading @ hard_issues_heading @ no_hard_issues"
    unfolding diag by (rule format_diagnosis_fallback)
  have fr: "format_report r =
                (ascii ''# '') @ report_title @ [10, 10] @ date_label @ now @ [10, 10] @
                diagnosis_heading @ hard_issues_heading @ no_hard_issues @
                format_perspective (perspective r) @ format_surgery (surgery r) @
                final_heading @
                final_assessment"
    unfolding format_report_def fd ttl dt by (simp add: ascii_def)
  show ?thesis
    using theories gen core diag fd fr by blast
qed

lemma remdups_listing: "set_listing remdups"
  by (simp add: set_listing_def)

theorem empty_text_report_witness:
  "set_listing remdups \<and> extract_core_theories plain_tables remdups [] = [] \<and>
   core_theories (perspective (projr (generate_review_report plain_tables remdups (ascii ''2026-01-01 12:00:00'') []))) = [] \<and>
   format_diagnosis (diagnosis (projr (generate_review_report plain_tables remdups (ascii ''2026-01-01 12:00:00'') []))) =
     diagnosis_heading @ hard_issues_heading @ no_hard_issues"
  using empty_text_report [OF remdups_listing, of plain_tables "(ascii ''2026-01-01 12:00:00'')"] remdups_listing
  by (auto simp add: no_hard_issues_def ascii_def)

section \<open>Determinism of the report\<close>











section \<open>Properties of the matcher\<close>

lemma first_some_None_iff: "first_some f xs = None \<longleftrightarrow> (\<forall>x\<in>set xs. f x = None)"
  by (induction xs) (auto split: option.splits)

lemma str_in_iff: "str_in sub s \<longleftrightarrow> (\<exists>a b. s = a @ sub @ b)"
proof (induction s)
  case Nil
  show ?case by auto
next
  case (Cons c cs)
  show ?case
  proof
    assume "str_in sub (c # cs)"
    then consider "prefix sub (c # cs)" | "str_in sub cs" by auto
    then show "\<exists>a b. c # cs = a @ sub @ b"
    proof cases
      case 1
      then obtain b where "c # cs = sub @ b" by (auto simp: prefix_def)
      then have "c # cs = [] @ sub @ b" by simp
      then show ?thesis by blast
    next
      case 2
      then obtain a b where "cs = a @ sub @ b" using Cons.IH by blast
      then have "c # cs = (c # a) @ sub @ b" by simp
      then show ?thesis by blast
    qed
  next
    assume "\<exists>a b. c # cs = a @ sub @ b"
    then obtain a b where ab: "c # cs = a @ sub @ b" by blast
    show "str_in sub (c # cs)"
    proof (cases a)
      case Nil
      then have "prefix sub (c # cs)" using ab by (simp add: prefix_def)
      then show ?thesis by simp
    next
      case (Cons x a')
      then have "cs = a' @ sub @ b" using ab by simp
      then have "str_in sub cs" using Cons.IH by blast
      then show ?thesis by simp
    qed
  qed
qed

lemma prev_after_Cons: "prev_after p (c # a) = prev_after (Some c) a"
  by (simp add: prev_after_def)

lemma prev_after_append: "prev_after (prev_after p a) b = prev_after p (a @ b)"
  by (simp add: prev_after_def)

lemma re_search_iff:
  "re_search u re p s \<longleftrightarrow> (\<exists>a r. s = a @ r \<and> re_match u re (prev_after p a) r \<noteq> None)"
proof (induction s arbitrary: p)
  case Nil
  show ?case by (simp add: prev_after_def)
next
  case (Cons c cs)
  show ?case
  proof
    assume "re_search u re p (c # cs)"
    then consider "re_match u re p (c # cs) \<noteq> None" | "re_search u re (Some c) cs" by auto
    then show "\<exists>a r. c # cs = a @ r \<and> re_match u re (prev_after p a) r \<noteq> None"
    proof cases
      case 1
      then have "c # cs = [] @ (c # cs) \<and> re_match u re (prev_after p []) (c # cs) \<noteq> None"
        by (simp add: prev_after_def)
      then show ?thesis by blast
    next
      case 2
      then obtain a r where "cs = a @ r" "re_match u re (prev_after (Some c) a) r \<noteq> None"
        using Cons.IH by blast
      then have "c # cs = (c # a) @ r \<and> re_match u re (prev_after p (c # a)) r \<noteq> None"
        by (simp add: prev_after_Cons)
      then show ?thesis by blast
    qed
  next
    assume "\<exists>a r. c # cs = a @ r \<and> re_match u re (prev_after p a) r \<noteq> None"
    then obtain a r where ar: "c # cs = a @ r" "re_match u re (prev_after p a) r \<noteq> None" by blast
    show "re_search u re p (c # cs)"
    proof (cases a)
      case Nil
      then have "re_match u re p (c # cs) \<noteq> None"
        using ar by (simp add: prev_after_def)
      then show ?thesis by simp
    next
      case (Cons x a')
      then have "cs = a' @ r" "re_match u re (prev_after (Some c) a') r \<noteq> None"
        using ar by (simp_all add: prev_after_Cons)
      then have "re_search u re (Some c) cs" using Cons.IH by blast
      then show ?thesis by simp
    qed
  qed
qed

lemma le_takeWhile_iff:
  "j \<le> length (takeWhile P xs) \<longleftrightarrow> j \<le> length xs \<and> (\<forall>x\<in>set (take j xs). P x)"
proof (induction xs arbitrary: j)
  case Nil
  show ?case by simp
next
  case (Cons x xs)
  show ?case by (cases j) (auto simp: Cons.IH)
qed

lemma first_some_downto:
  "first_some f (rev [lo..<Suc k]) \<noteq> None \<longleftrightarrow> (\<exists>j. lo \<le> j \<and> j \<le> k \<and> f j \<noteq> None)"
proof -
  have s: "set (rev [lo..<Suc k]) = {lo..k}"
    unfolding set_rev set_upt by (rule atLeastLessThanSuc_atLeastAtMost)
  have "first_some f (rev [lo..<Suc k]) = None \<longleftrightarrow> (\<forall>j\<in>{lo..k}. f j = None)"
    unfolding first_some_None_iff s ..
  also have "\<dots> \<longleftrightarrow> (\<forall>j. lo \<le> j \<and> j \<le> k \<longrightarrow> f j = None)"
    by (simp add: Ball_def)
  finally show ?thesis by simp
qed

lemma rmatch_Rep_iff:
  "rmatch u (Rep a lo hi # is) p r n ms \<noteq> None \<longleftrightarrow>
     (\<exists>j. lo \<le> j \<and> j \<le> run_len u a hi r \<and>
          rmatch u is (prev_after p (take j r)) (drop j r) (n + j) ms \<noteq> None)"
proof (cases "run_len u a hi r < lo")
  case True
  then show ?thesis by (auto simp: Let_def)
next
  case False
  then have "rmatch u (Rep a lo hi # is) p r n ms =
    first_some (\<lambda>j. rmatch u is (prev_after p (take j r)) (drop j r) (n + j) ms)
      (rev [lo..<Suc (run_len u a hi r)])"
    by (simp add: Let_def del: upt_Suc)
  then show ?thesis
    by (simp only: first_some_downto)
qed

text \<open>
  Whether the matcher succeeds depends on the pattern and the position only, not on the
  count and the marks it carries along.
\<close>

lemma rmatch_success_indep:
  "rmatch u is p r n ms \<noteq> None \<longleftrightarrow> rmatch u is p r n' ms' \<noteq> None"
proof (induction "is" arbitrary: p r n ms n' ms')
  case Nil
  show ?case by simp
next
  case (Cons i "is")
  show ?case
  proof (cases i)
    case (Lit s)
    then show ?thesis using Cons.IH by simp
  next
    case (One a)
    then show ?thesis using Cons.IH by (simp split: list.splits)
  next
    case (Rep a lo hi)
    show ?thesis
      unfolding Rep rmatch_Rep_iff using Cons.IH by blast
  next
    case Bnd
    then show ?thesis using Cons.IH by simp
  next
    case LParen
    then show ?thesis using Cons.IH by simp
  next
    case RParen
    then show ?thesis using Cons.IH by simp
  qed
qed

lemma accepts_Nil: "accepts u [] p r"
  by (simp add: accepts_def re_match_def)

lemma accepts_Lit:
  "accepts u (Lit s # is) p r \<longleftrightarrow> (\<exists>r'. r = s @ r' \<and> accepts u is (prev_after p s) r')"
proof -
  have "accepts u (Lit s # is) p r \<longleftrightarrow>
        prefix s r \<and> rmatch u is (prev_after p s) (drop (length s) r) (0 + length s) [] \<noteq> None"
    by (simp add: accepts_def re_match_def)
  also have "\<dots> \<longleftrightarrow> prefix s r \<and> accepts u is (prev_after p s) (drop (length s) r)"
    unfolding accepts_def re_match_def using rmatch_success_indep by blast
  also have "\<dots> \<longleftrightarrow> (\<exists>r'. r = s @ r' \<and> accepts u is (prev_after p s) r')"
    by (auto simp: prefix_def)
  finally show ?thesis .
qed

lemma accepts_Bnd:
  "accepts u (Bnd # is) p r \<longleftrightarrow> at_boundary u p r \<and> accepts u is p r"
  by (simp add: accepts_def re_match_def)

lemma accepts_Rep:
  "accepts u (Rep a lo hi # is) p r \<longleftrightarrow>
     (\<exists>j. lo \<le> j \<and> j \<le> run_len u a hi r \<and> accepts u is (prev_after p (take j r)) (drop j r))"
  unfolding accepts_def re_match_def rmatch_Rep_iff using rmatch_success_indep by blast

lemma accepts_Dots:
  "accepts u (Rep Dot 0 None # is) p r \<longleftrightarrow>
     (\<exists>b r'. r = b @ r' \<and> 10 \<notin> set b \<and> accepts u is (prev_after p b) r')"
proof
  assume "accepts u (Rep Dot 0 None # is) p r"
  then obtain j where j: "j \<le> length (takeWhile (atom_ok u Dot) r)"
    "accepts u is (prev_after p (take j r)) (drop j r)"
    unfolding accepts_Rep by (auto simp: run_len_def)
  from j(1) have nl: "10 \<notin> set (take j r)"
    by (auto simp: le_takeWhile_iff)
  have "r = take j r @ drop j r"
    by simp
  then show "\<exists>b r'. r = b @ r' \<and> 10 \<notin> set b \<and> accepts u is (prev_after p b) r'"
    using nl j(2) by blast
next
  assume "\<exists>b r'. r = b @ r' \<and> 10 \<notin> set b \<and> accepts u is (prev_after p b) r'"
  then obtain b r' where b: "r = b @ r'" "10 \<notin> set b" "accepts u is (prev_after p b) r'"
    by blast
  have "length b \<le> run_len u Dot None r"
    using b(1,2) by (auto simp: le_takeWhile_iff run_len_def)
  moreover have "accepts u is (prev_after p (take (length b) r)) (drop (length b) r)"
    using b by simp
  ultimately show "accepts u (Rep Dot 0 None # is) p r"
    unfolding accepts_Rep by blast
qed

lemma re_search_accepts:
  "re_search u re p s \<longleftrightarrow> (\<exists>a r. s = a @ r \<and> accepts u re (prev_after p a) r)"
  unfolding accepts_def by (rule re_search_iff)

section \<open>The transplant warning\<close>

lemma three_literals_accepts:
  "accepts u [Lit x, Rep Dot 0 None, Lit y, Rep Dot 0 None, Lit z] p r \<longleftrightarrow>
     (\<exists>b c d. r = x @ b @ y @ c @ z @ d \<and> 10 \<notin> set b \<and> 10 \<notin> set c)"
proof
  assume "accepts u [Lit x, Rep Dot 0 None, Lit y, Rep Dot 0 None, Lit z] p r"
  then obtain r1 b r2 r3 c r4 d where
    "r = x @ r1" "r1 = b @ r2" "10 \<notin> set b" "r2 = y @ r3" "r3 = c @ r4" "10 \<notin> set c" "r4 = z @ d"
    unfolding accepts_Lit accepts_Dots by blast
  then have "r = x @ b @ y @ c @ z @ d \<and> 10 \<notin> set b \<and> 10 \<notin> set c"
    by simp
  then show "\<exists>b c d. r = x @ b @ y @ c @ z @ d \<and> 10 \<notin> set b \<and> 10 \<notin> set c"
    by blast
next
  assume "\<exists>b c d. r = x @ b @ y @ c @ z @ d \<and> 10 \<notin> set b \<and> 10 \<notin> set c"
  then obtain b c d where r: "r = x @ b @ y @ c @ z @ d" and b: "10 \<notin> set b" and c: "10 \<notin> set c"
    by blast
  have 1: "accepts u [Lit z] q (z @ d)" for q
    unfolding accepts_Lit using accepts_Nil by blast
  have 2: "accepts u [Rep Dot 0 None, Lit z] q (c @ z @ d)" for q
    unfolding accepts_Dots [of u "[Lit z]"] using c 1 by blast
  have 3: "accepts u [Lit y, Rep Dot 0 None, Lit z] q (y @ c @ z @ d)" for q
    unfolding accepts_Lit [of u y] using 2 by blast
  have 4: "accepts u [Rep Dot 0 None, Lit y, Rep Dot 0 None, Lit z] q (b @ y @ c @ z @ d)" for q
    unfolding accepts_Dots [of u "[Lit y, Rep Dot 0 None, Lit z]"] using b 3 by blast
  show "accepts u [Lit x, Rep Dot 0 None, Lit y, Rep Dot 0 None, Lit z] p r"
    unfolding r accepts_Lit [of u x] using 4 by blast
qed

lemma three_literals_search:
  "re_search u [Lit x, Rep Dot 0 None, Lit y, Rep Dot 0 None, Lit z] p s \<longleftrightarrow>
     in_order_on_lines x y z s"
  unfolding re_search_accepts three_literals_accepts in_order_on_lines_def by blast

lemma logic_issues_closed:
  "logic_issues (review_aesthetic_logic u s) =
     (if str_in western s \<and> str_in chinese s \<and> re_search u transplant_pattern None s
      then [transplant_warning] else [])"
  by (simp add: review_aesthetic_logic_def Let_def)

lemma in_order_str_in:
  assumes "in_order_on_lines x y z s"
  shows "str_in x s \<and> str_in z s"
proof -
  obtain a b c d where s: "s = a @ x @ b @ y @ c @ z @ d"
    using assms unfolding in_order_on_lines_def by blast
  have "s = a @ x @ (b @ y @ c @ z @ d)" "s = (a @ x @ b @ y @ c) @ z @ d"
    using s by simp_all
  then show ?thesis
    unfolding str_in_iff by blast
qed

text \<open>
  C8, in the form the script satisfies. For every text, the logic issues of
  \<open>review_aesthetic_logic\<close> are exactly one transplant warning when the three
  words U+897F U+65B9 (Western), U+7406 U+8BBA (theory) and U+4E2D U+56FD (Chinese) occur
  in this order with no line break between the first and the second and none between the
  second and the third, and no issue at all otherwise.
\<close>

theorem transplant_warning_on_one_line:
  "logic_issues (review_aesthetic_logic u s) =
     (if in_order_on_lines western theory_word chinese s then [transplant_warning] else [])"
  unfolding logic_issues_closed transplant_pattern_def three_literals_search
  using in_order_str_in by auto


text \<open>
  As the specification states it, the property fails: here the three words stand in order,
  the text contains the first and the third, and a line break between the second and the
  third keeps the pattern from matching, so no warning is given.
\<close>

theorem transplant_line_break_counterexample:
  "two_lines_text = western @ theory_word @ [10] @ chinese @ [0x827A, 0x672F] \<and>
   str_in western two_lines_text \<and> str_in chinese two_lines_text \<and>
   logic_issues (review_aesthetic_logic plain_tables two_lines_text) = []"
  by (simp add: logic_issues_closed transplant_pattern_def re_eval)

theorem transplant_warning_on_one_line_witness:
  "in_order_on_lines western theory_word chinese one_line_text \<and>
   logic_issues (review_aesthetic_logic plain_tables one_line_text) = [transplant_warning]"
proof -
  have "one_line_text = [0x7528] @ western @ [0x7684] @ theory_word @ [0x89E3, 0x91CA] @ chinese @ [0x7ED8, 0x753B] \<and>
        (10::nat) \<notin> set [0x7684] \<and> (10::nat) \<notin> set [0x89E3, 0x91CA]"
    by simp
  then have ord: "in_order_on_lines western theory_word chinese one_line_text"
    unfolding in_order_on_lines_def by blast
  show ?thesis
    using transplant_warning_on_one_line [of plain_tables "one_line_text"] ord
    by simp
qed

section \<open>The term confusions\<close>

lemma boundary_at_start:
  "at_boundary u (prev_after None a) r \<longleftrightarrow> word_before u a \<noteq> word_after u r"
  by (cases r) (auto simp: at_boundary_def prev_after_def word_before_def word_after_def)

lemma boundary_after_word:
  assumes "x \<noteq> []" and "is_word u (last x)"
  shows "at_boundary u (prev_after p x) r \<longleftrightarrow> \<not> word_after u r"
  using assms by (cases r) (auto simp: at_boundary_def prev_after_def word_after_def)

lemma boundary_before_word:
  assumes "y \<noteq> []" and "is_word u (hd y)"
  shows "at_boundary u (prev_after (Some q) b) (y @ c) \<longleftrightarrow> \<not> (if b = [] then is_word u q else is_word u (last b))"
  using assms by (cases y) (auto simp: at_boundary_def prev_after_def)

lemma word_after_append:
  "word_after u (b @ r) = (if b = [] then word_after u r else is_word u (hd b))"
  by (simp add: word_after_def)

lemma two_terms_accepts:
  assumes x: "x \<noteq> []" "is_word u (hd x)" "is_word u (last x)"
    and y: "y \<noteq> []" "is_word u (hd y)" "is_word u (last y)"
  shows "accepts u [Bnd, Lit x, Bnd, Rep Dot 0 None, Bnd, Lit y, Bnd] (prev_after None a) r \<longleftrightarrow>
           \<not> word_before u a \<and>
           (\<exists>b c. r = x @ b @ y @ c \<and> b \<noteq> [] \<and> \<not> is_word u (hd b) \<and> \<not> is_word u (last b) \<and>
                  10 \<notin> set b \<and> \<not> word_after u c)"
proof -
  have px: "prev_after (prev_after None a) x = Some (last x)"
    using x(1) by (simp add: prev_after_def)
  have wx: "word_after u (x @ r') \<longleftrightarrow> True" for r'
    using x(1,2) by (simp add: word_after_def)
  have wy: "word_after u (y @ r') \<longleftrightarrow> True" for r'
    using y(1,2) by (simp add: word_after_def)
  have gap: "\<not> word_after u (b @ y @ c) \<and> at_boundary u (prev_after (Some (last x)) b) (y @ c) \<longleftrightarrow>
             b \<noteq> [] \<and> \<not> is_word u (hd b) \<and> \<not> is_word u (last b)" for b c
    unfolding boundary_before_word [OF y(1,2)] word_after_append wy using x(3) by auto
  have "accepts u [Bnd, Lit x, Bnd, Rep Dot 0 None, Bnd, Lit y, Bnd] (prev_after None a) r \<longleftrightarrow>
        at_boundary u (prev_after None a) r \<and>
        (\<exists>r1. r = x @ r1 \<and> at_boundary u (Some (last x)) r1 \<and>
           (\<exists>b r2. r1 = b @ r2 \<and> 10 \<notin> set b \<and> at_boundary u (prev_after (Some (last x)) b) r2 \<and>
              (\<exists>c. r2 = y @ c \<and> at_boundary u (prev_after (prev_after (Some (last x)) b) y) c)))"
    unfolding accepts_Bnd accepts_Lit accepts_Dots px using accepts_Nil by simp
  also have "\<dots> \<longleftrightarrow>
        (\<exists>b c. r = x @ b @ y @ c \<and> at_boundary u (prev_after None a) (x @ b @ y @ c) \<and>
           at_boundary u (Some (last x)) (b @ y @ c) \<and> 10 \<notin> set b \<and>
           at_boundary u (prev_after (Some (last x)) b) (y @ c) \<and>
           at_boundary u (prev_after (prev_after (Some (last x)) b) y) c)"
    by blast
  also have "\<dots> \<longleftrightarrow>
        (\<exists>b c. r = x @ b @ y @ c \<and> \<not> word_before u a \<and>
           (\<not> word_after u (b @ y @ c) \<and> at_boundary u (prev_after (Some (last x)) b) (y @ c)) \<and>
           10 \<notin> set b \<and> \<not> word_after u c)"
    unfolding boundary_at_start wx boundary_after_word [OF y(1,3)]
      boundary_after_word [OF x(1,3), of None, unfolded prev_after_def, simplified x(1) if_False]
    by (simp add: conj_ac)
  also have "\<dots> \<longleftrightarrow>
        \<not> word_before u a \<and>
        (\<exists>b c. r = x @ b @ y @ c \<and> b \<noteq> [] \<and> \<not> is_word u (hd b) \<and> \<not> is_word u (last b) \<and>
               10 \<notin> set b \<and> \<not> word_after u c)"
    unfolding gap by blast
  finally show ?thesis .
qed

lemma two_terms_search:
  assumes "x \<noteq> []" "is_word u (hd x)" "is_word u (last x)" "y \<noteq> []" "is_word u (hd y)" "is_word u (last y)"
  shows "re_search u [Bnd, Lit x, Bnd, Rep Dot 0 None, Bnd, Lit y, Bnd] None s \<longleftrightarrow> apart_on_line u x y s"
proof -
  have "re_search u [Bnd, Lit x, Bnd, Rep Dot 0 None, Bnd, Lit y, Bnd] None s \<longleftrightarrow>
        (\<exists>a r. s = a @ r \<and> \<not> word_before u a \<and>
           (\<exists>b c. r = x @ b @ y @ c \<and> b \<noteq> [] \<and> \<not> is_word u (hd b) \<and> \<not> is_word u (last b) \<and>
                  10 \<notin> set b \<and> \<not> word_after u c))"
    unfolding re_search_accepts two_terms_accepts [OF assms] ..
  also have "\<dots> \<longleftrightarrow> apart_on_line u x y s"
    unfolding apart_on_line_def by blast
  finally show ?thesis .
qed

lemma ideograph_is_word: "cjk c \<Longrightarrow> is_word u c"
  by (auto simp: is_word_def cjk_def)

text \<open>
  C2, in the form the script satisfies. For every text and each of the two pairs of the
  term-confusion list, the pair's description is in the list \<open>term_misuses\<close>
  if and only if the pair's two terms occur in the text in this order, on one line, each
  between two word boundaries: no word character, hence no ideograph, letter or digit,
  stands directly before or behind either term.
\<close>

theorem term_confusion_between_boundaries:
  "(confused_deconstruction \<in> set (term_misuses (diagnose_paper u s)) \<longleftrightarrow>
      apart_on_line u deconstructionism structuralism s) \<and>
   (confused_wugan \<in> set (term_misuses (diagnose_paper u s)) \<longleftrightarrow>
      apart_on_line u wugan reification s)"
proof -
  have 1: "re_search u deconstruction_structuralism None s \<longleftrightarrow>
           apart_on_line u deconstructionism structuralism s"
    unfolding deconstruction_structuralism_def
    by (rule two_terms_search) (simp_all add: ideograph_is_word cjk_def)
  have 2: "re_search u wugan_reification None s \<longleftrightarrow> apart_on_line u wugan reification s"
    unfolding wugan_reification_def
    by (rule two_terms_search) (simp_all add: ideograph_is_word cjk_def)
  show ?thesis
    by (simp add: diagnose_paper_def diagnose_with_closed term_misuses_patterns_def 1 2)
qed

text \<open>
  As the specification states it, the property fails: in running Chinese text the two
  terms stand between ideographs, which are word characters, so no boundary is found and
  nothing is reported although both terms appear in order.
\<close>

theorem term_confusion_counterexample:
  "running_text = [0x672C, 0x6587, 0x6DF7, 0x7528] @ deconstructionism @ [0x548C] @ structuralism \<and>
   str_in deconstructionism running_text \<and> str_in structuralism running_text \<and>
   confused_deconstruction \<notin> set (term_misuses (diagnose_paper plain_tables running_text))"
  by (simp add: diagnose_paper_def diagnose_with_closed term_misuses_patterns_def
      deconstruction_structuralism_def wugan_reification_def re_eval)

theorem term_confusion_between_boundaries_witness:
  "apart_on_line plain_tables deconstructionism structuralism slash_text \<and>
   confused_deconstruction \<in> set (term_misuses (diagnose_paper plain_tables slash_text))"
proof -
  have "slash_text = [] @ deconstructionism @ (ascii '' / '') @ structuralism @ [] \<and>
        \<not> word_before plain_tables [] \<and> (ascii '' / '') \<noteq> [] \<and> \<not> is_word plain_tables (hd (ascii '' / '')) \<and>
        \<not> is_word plain_tables (last (ascii '' / '')) \<and> 10 \<notin> set (ascii '' / '') \<and> \<not> word_after plain_tables []"
    by (simp add: word_before_def word_after_def is_word_def ascii_def)
  then have apart: "apart_on_line plain_tables deconstructionism structuralism slash_text"
    unfolding apart_on_line_def by blast
  show ?thesis
    using term_confusion_between_boundaries [of plain_tables "slash_text"] apart
    by simp
qed

section \<open>Properties of the scan\<close>

lemma first_some_SomeD: "first_some f xs = Some y \<Longrightarrow> \<exists>x\<in>set xs. f x = Some y"
  by (induction xs) (auto split: option.splits)

lemma first_some_top:
  assumes "lo \<le> k" and "f k = Some y"
  shows "first_some f (rev [lo..<Suc k]) = Some y"
proof -
  have "rev [lo..<Suc k] = k # rev [lo..<k]"
    using assms(1) by simp
  then show ?thesis
    using assms(2) by simp
qed

text \<open>While the scan skips the characters of a match it tries no position.\<close>

lemma scan_skip: "scan u re p (a @ rest) (length a) = scan u re (prev_after p a) rest 0"
proof (induction a arbitrary: p)
  case Nil
  show ?case by (simp add: prev_after_def)
next
  case (Cons c a)
  show ?case
    using Cons.IH [of "Some c"] by (simp add: prev_after_Cons)
qed

text \<open>A match at the position of the scan is reported, and the scan goes on behind it.\<close>

lemma scan_match_step:
  assumes "w \<noteq> []" and "re_match u re p (w @ rest) = Some (length w, ms)"
  shows "scan u re p (w @ rest) 0 =
           match_groups (length w, ms) (w @ rest) # scan u re (prev_after p w) rest 0"
proof -
  obtain c w' where w: "w = c # w'"
    using assms(1) by (cases w) auto
  have "scan u re p (w @ rest) 0 =
          match_groups (length w, ms) (w @ rest) # scan u re (Some c) (w' @ rest) (length w')"
    using assms(2) unfolding w by simp
  then show ?thesis
    unfolding scan_skip w prev_after_Cons .
qed

text \<open>
  Where no match that starts inside \<open>a\<close> reaches beyond \<open>a\<close>, the scan of \<open>a @ rest\<close>
  arrives at \<open>rest\<close> with nothing left to skip.
\<close>

lemma scan_split:
  assumes "\<And>a1 a2 m. a = a1 @ a2 \<Longrightarrow> a2 \<noteq> [] \<Longrightarrow>
             re_match u re (prev_after p a1) (a2 @ rest) = Some m \<Longrightarrow> fst m \<le> length a2"
    and "k \<le> length a"
  shows "\<exists>ys. scan u re p (a @ rest) k = ys @ scan u re (prev_after p a) rest 0"
  using assms
proof (induction a arbitrary: p k)
  case Nil
  then show ?case by (simp add: prev_after_def)
next
  case (Cons c a)
  have inner: "fst m \<le> length a2"
    if "a = a1 @ a2" "a2 \<noteq> []" "re_match u re (prev_after (Some c) a1) (a2 @ rest) = Some m"
    for a1 a2 m
    using Cons.prems(1) [of "c # a1" a2 m] that by (simp add: prev_after_Cons)
  have step: "\<exists>ys. scan u re (Some c) (a @ rest) j = ys @ scan u re (prev_after p (c # a)) rest 0"
    if "j \<le> length a" for j
    using Cons.IH [of "Some c" j] inner that unfolding prev_after_Cons by blast
  show ?case
  proof (cases "0 < k")
    case True
    then have "scan u re p ((c # a) @ rest) k = scan u re (Some c) (a @ rest) (k - 1)"
      by simp
    moreover have "k - 1 \<le> length a"
      using Cons.prems(2) by simp
    ultimately show ?thesis
      using step by metis
  next
    case False
    then have k: "k = 0" by simp
    show ?thesis
    proof (cases "re_match u re p (c # a @ rest)")
      case None
      then have "scan u re p ((c # a) @ rest) k = scan u re (Some c) (a @ rest) 0"
        unfolding k by simp
      then show ?thesis
        using step [of 0] by simp
    next
      case (Some m)
      have "fst m \<le> length (c # a)"
        using Cons.prems(1) [of "[]" "c # a" m] Some by (simp add: prev_after_def)
      then have le: "fst m - 1 \<le> length a"
        by simp
      have "scan u re p ((c # a) @ rest) k =
            match_groups m (c # a @ rest) # scan u re (Some c) (a @ rest) (fst m - 1)"
        unfolding k using Some by simp
      moreover obtain ys where "scan u re (Some c) (a @ rest) (fst m - 1) =
            ys @ scan u re (prev_after p (c # a)) rest 0"
        using step [OF le] by blast
      ultimately have "scan u re p ((c # a) @ rest) k =
            (match_groups m (c # a @ rest) # ys) @ scan u re (prev_after p (c # a)) rest 0"
        by simp
      then show ?thesis by blast
    qed
  qed
qed

text \<open>Where no position of \<open>a\<close> starts a match, the scan of \<open>a @ rest\<close> reports nothing before \<open>rest\<close>.\<close>

lemma scan_no_match:
  assumes "\<And>a1 a2. a = a1 @ a2 \<Longrightarrow> a2 \<noteq> [] \<Longrightarrow>
             re_match u re (prev_after p a1) (a2 @ rest) = None"
  shows "scan u re p (a @ rest) 0 = scan u re (prev_after p a) rest 0"
  using assms
proof (induction a arbitrary: p)
  case Nil
  then show ?case by (simp add: prev_after_def)
next
  case (Cons c a)
  have here: "re_match u re p (c # a @ rest) = None"
    using Cons.prems [of "[]" "c # a"] by (simp add: prev_after_def)
  have inner: "re_match u re (prev_after (Some c) a1) (a2 @ rest) = None"
    if "a = a1 @ a2" "a2 \<noteq> []" for a1 a2
    using Cons.prems [of "c # a1" a2] that by (simp add: prev_after_Cons)
  have "scan u re (Some c) (a @ rest) 0 = scan u re (prev_after (Some c) a) rest 0"
    using Cons.IH [of "Some c"] inner by blast
  then show ?case
    using here by (simp add: prev_after_Cons)
qed

lemma scan_Nil_no_match:
  assumes "re_match u re p [] = None"
  shows "scan u re p [] 0 = []"
  using assms by simp

lemma scan_none:
  assumes "\<And>a1 a2. s = a1 @ a2 \<Longrightarrow> re_match u re (prev_after p a1) a2 = None"
  shows "scan u re p s 0 = []"
proof -
  have "scan u re p (s @ []) 0 = scan u re (prev_after p s) [] 0"
    by (rule scan_no_match) (use assms in simp)
  also have "\<dots> = []"
    by (rule scan_Nil_no_match) (use assms [of s "[]"] in simp)
  finally show ?thesis by simp
qed

lemma accepts_LParen: "accepts u (LParen # is) p r \<longleftrightarrow> accepts u is p r"
  unfolding accepts_def re_match_def using rmatch_success_indep by simp

lemma accepts_RParen: "accepts u (RParen # is) p r \<longleftrightarrow> accepts u is p r"
  unfolding accepts_def re_match_def using rmatch_success_indep by simp

section \<open>The bracketed titles\<close>

lemma classics_needs_bracket:
  assumes "\<not> prefix [0x300A] r"
  shows "re_match u chinese_classics_pattern p r = None"
  using assms by (simp add: re_match_def chinese_classics_pattern_def)

lemma classics_match:
  assumes "ttl \<noteq> []" and "0x300B \<notin> set ttl"
  shows "re_match u chinese_classics_pattern p (0x300A # ttl @ 0x300B # b) =
           Some (length ttl + 2, [1, length ttl + 1])"
proof -
  have "takeWhile (atom_ok u (NotIn rquote)) (ttl @ 0x300B # b) =
          ttl @ takeWhile (atom_ok u (NotIn rquote)) (0x300B # b)"
    by (rule takeWhile_append2) (use assms(2) in \<open>auto simp: in_ranges_def\<close>)
  then have run: "run_len u (NotIn rquote) None (ttl @ 0x300B # b) = length ttl"
    by (simp add: run_len_def in_ranges_def)
  define f where "f = (\<lambda>j. rmatch u [RParen, Lit [0x300B]]
      (prev_after (Some 0x300A) (take j (ttl @ 0x300B # b))) (drop j (ttl @ 0x300B # b)) (1 + j) [1])"
  have top: "f (length ttl) = Some (length ttl + 2, [1, length ttl + 1])"
    by (simp add: f_def)
  have le: "1 \<le> length ttl"
    using assms(1) by (simp add: Suc_le_eq)
  have "rmatch u [Rep (NotIn rquote) 1 None, RParen, Lit [0x300B]] (Some 0x300A)
          (ttl @ 0x300B # b) 1 [1] = first_some f (rev [1..<Suc (length ttl)])"
    unfolding f_def using le by (simp add: run Let_def del: upt_Suc)
  also have "\<dots> = Some (length ttl + 2, [1, length ttl + 1])"
    using first_some_top [of 1 "length ttl" f, OF le top] .
  finally show ?thesis
    by (simp add: re_match_def chinese_classics_pattern_def prev_after_def)
qed

text \<open>
  A text is cut at its first closing bracket in one way only.
\<close>

lemma first_close_unique:
  fixes y y' q q' :: str
  assumes "y @ 0x300B # q = y' @ 0x300B # q'" and "0x300B \<notin> set y" and "0x300B \<notin> set y'"
  shows "y = y' \<and> q = q'"
proof -
  have "takeWhile (\<lambda>x. x \<noteq> 0x300B) (y @ 0x300B # q) = y"
    using assms(2) by (auto simp: takeWhile_tail takeWhile_eq_all_conv)
  moreover have "takeWhile (\<lambda>x. x \<noteq> 0x300B) (y' @ 0x300B # q') = y'"
    using assms(3) by (auto simp: takeWhile_tail takeWhile_eq_all_conv)
  ultimately have "y = y'"
    using assms(1) by simp
  then show ?thesis
    using assms(1) by simp
qed

lemma span_free_Cons:
  assumes "span_free (c # cs)"
  shows "span_free cs"
  unfolding span_free_def
proof (intro allI notI)
  fix a y b
  assume "title_span cs a y b"
  then have "title_span (c # cs) (c # a) y b"
    by (simp add: title_span_def)
  then show False
    using assms by (simp add: span_free_def)
qed

text \<open>
  A text holds a bracketed title exactly if some opening bracket of it is followed by a
  character other than the closing bracket and, behind that, by a closing bracket.
\<close>

lemma has_span_iff: "has_span s \<longleftrightarrow> \<not> span_free s"
proof (induction s rule: has_span.induct)
  case (1 c d cs)
  show ?case
  proof
    assume "has_span (c # d # cs)"
    then consider "c = 0x300A" "d \<noteq> 0x300B" "0x300B \<in> set cs" | "has_span (d # cs)"
      by auto
    then show "\<not> span_free (c # d # cs)"
    proof cases
      case 1
      obtain y q where cs: "cs = y @ 0x300B # q" "0x300B \<notin> set y"
        using 1(3) by (meson split_list_first)
      have "title_span (c # d # cs) [] (d # y) q"
        using 1(1,2) cs by (simp add: title_span_def)
      then show ?thesis
        unfolding span_free_def by blast
    next
      case 2
      then have "\<not> span_free (d # cs)"
        using "1.IH" by simp
      then show ?thesis
        using span_free_Cons by blast
    qed
  next
    assume "\<not> span_free (c # d # cs)"
    then obtain a y b where sp: "title_span (c # d # cs) a y b"
      unfolding span_free_def by blast
    show "has_span (c # d # cs)"
    proof (cases a)
      case Nil
      then have "c = 0x300A" "d # cs = y @ 0x300B # b" "y \<noteq> []" "0x300B \<notin> set y"
        using sp by (simp_all add: title_span_def)
      then show ?thesis
        by (cases y) auto
    next
      case (Cons c' a')
      then have "title_span (d # cs) a' y b"
        using sp by (simp add: title_span_def)
      then have "has_span (d # cs)"
        using "1.IH" unfolding span_free_def by blast
      then show ?thesis by simp
    qed
  qed
next
  case (2 c)
  show ?case
    by (auto simp: span_free_def title_span_def Cons_eq_append_conv)
next
  case 3
  show ?case
    by (simp add: span_free_def title_span_def)
qed

lemma span_free_iff: "span_free s \<longleftrightarrow> \<not> has_span s"
  by (simp add: has_span_iff)

text \<open>
  The pattern of the classics matches at a bracketed title only: an opening bracket, a
  run of one or more characters other than the closing bracket, and the closing bracket
  that ends the run.
\<close>

lemma classics_match_D:
  assumes "re_match u chinese_classics_pattern p r = Some m"
  shows "\<exists>y q. r = 0x300A # y @ 0x300B # q \<and> y \<noteq> [] \<and> 0x300B \<notin> set y \<and>
           m = (length y + 2, [1, length y + 1])"
proof -
  obtain r1 where r: "r = 0x300A # r1"
    using assms classics_needs_bracket [of r u p] by (cases r) (auto split: if_splits)
  define k where "k = run_len u (NotIn rquote) None r1"
  define f where "f = (\<lambda>j. rmatch u [RParen, Lit [0x300B]]
      (prev_after (Some 0x300A) (take j r1)) (drop j r1) (1 + j) [1])"
  have "rmatch u [Rep (NotIn rquote) 1 None, RParen, Lit [0x300B]] (Some 0x300A) r1 1 [1] = Some m"
    using assms unfolding r by (simp add: re_match_def chinese_classics_pattern_def prev_after_def)
  then have "first_some f (rev [1..<Suc k]) = Some m"
    unfolding f_def k_def by (simp add: Let_def split: if_splits del: upt_Suc)
  then obtain j where j: "j \<in> set (rev [1..<Suc k])" "f j = Some m"
    using first_some_SomeD by fastforce
  have j1: "1 \<le> j"
    using j(1) by (simp del: upt_Suc)
  have jk: "j \<le> length (takeWhile (atom_ok u (NotIn rquote)) r1)"
    using j(1) unfolding k_def run_len_def by (simp del: upt_Suc)
  then have notin: "0x300B \<notin> set (take j r1)"
    unfolding le_takeWhile_iff by (auto simp: in_ranges_def)
  have len: "length (take j r1) = j"
    using jk le_takeWhile_iff [of j "atom_ok u (NotIn rquote)" r1] by simp
  have "prefix [0x300B] (drop j r1)"
    using j(2) unfolding f_def by (auto split: if_splits)
  then obtain b where "drop j r1 = 0x300B # b"
    by (auto simp: prefix_def)
  then have r1: "r1 = take j r1 @ 0x300B # b"
    by (metis append_take_drop_id)
  have ne: "take j r1 \<noteq> []"
    using len j1 by auto
  have "re_match u chinese_classics_pattern p (0x300A # take j r1 @ 0x300B # b) =
          Some (length (take j r1) + 2, [1, length (take j r1) + 1])"
    by (rule classics_match [OF ne notin])
  then have "m = (length (take j r1) + 2, [1, length (take j r1) + 1])"
    using assms r r1 by simp
  then show ?thesis
    using r r1 ne notin by blast
qed

lemma classics_step:
  assumes "y \<noteq> []" and "0x300B \<notin> set y"
  shows "scan u chinese_classics_pattern p (0x300A # y @ 0x300B # q) 0 =
           [y] # scan u chinese_classics_pattern (Some 0x300B) q 0"
proof -
  let ?w = "0x300A # y @ [0x300B]"
  have m: "re_match u chinese_classics_pattern p (?w @ q) = Some (length ?w, [1, length y + 1])"
    using classics_match [OF assms, of u p q] by simp
  have "scan u chinese_classics_pattern p (?w @ q) 0 =
          match_groups (length ?w, [1, length y + 1]) (?w @ q) #
          scan u chinese_classics_pattern (prev_after p ?w) q 0"
    by (rule scan_match_step [OF _ m]) simp
  moreover have "match_groups (length ?w, [1, length y + 1]) (?w @ q) = [y]"
    by (simp add: match_groups_def)
  moreover have "prev_after p ?w = Some 0x300B"
    by (simp add: prev_after_def)
  ultimately show ?thesis by simp
qed

text \<open>
  A text without a bracketed title yields no classic.
\<close>

lemma span_free_no_classic:
  assumes "span_free b"
  shows "scan u chinese_classics_pattern p b 0 = []"
proof (rule scan_none)
  fix a1 a2 :: str
  assume b: "b = a1 @ a2"
  show "re_match u chinese_classics_pattern (prev_after p a1) a2 = None"
  proof (rule ccontr)
    assume "re_match u chinese_classics_pattern (prev_after p a1) a2 \<noteq> None"
    then obtain m where "re_match u chinese_classics_pattern (prev_after p a1) a2 = Some m"
      by blast
    from classics_match_D [OF this]
    obtain y q where "a2 = 0x300A # y @ 0x300B # q" "y \<noteq> []" "0x300B \<notin> set y"
      by blast
    then have "title_span b a1 y q"
      using b by (simp add: title_span_def)
    then show False
      using assms by (simp add: span_free_def)
  qed
qed

text \<open>
  Before the title there is no bracketed title: the scan yields its first entry at the
  closing bracket of the title, and the entry ends with the title. (An opening bracket
  left open before the title becomes part of the entry.)
\<close>

lemma classics_through_prefix:
  assumes "ttl \<noteq> []" and "0x300B \<notin> set ttl" and "span_free a"
  shows "\<exists>x. scan u chinese_classics_pattern p (a @ 0x300A # ttl @ 0x300B # b) 0 =
               [x @ ttl] # scan u chinese_classics_pattern (Some 0x300B) b 0 \<and>
             (0x300A \<notin> set a \<longrightarrow> x = [])"
  using assms(3)
proof (induction a arbitrary: p)
  case Nil
  show ?case
    using classics_step [OF assms(1,2), of u p b] by simp
next
  case (Cons c cs)
  let ?r = "cs @ 0x300A # ttl @ 0x300B # b"
  have free: "span_free cs"
    using Cons.prems by (rule span_free_Cons)
  show ?case
  proof (cases "re_match u chinese_classics_pattern p (c # ?r)")
    case None
    then have "scan u chinese_classics_pattern p (c # ?r) 0 =
               scan u chinese_classics_pattern (Some c) ?r 0"
      by simp
    then show ?thesis
      using Cons.IH [OF free, of "Some c"] by auto
  next
    case (Some m)
    from classics_match_D [OF Some]
    obtain y q where shape: "c # ?r = 0x300A # y @ 0x300B # q" "y \<noteq> []" "0x300B \<notin> set y"
      by blast
    then have c: "c = 0x300A" and r: "?r = y @ 0x300B # q"
      by simp_all
    have notin: "0x300B \<notin> set cs"
    proof
      assume "0x300B \<in> set cs"
      then obtain y0 q0 where cs: "cs = y0 @ 0x300B # q0" "0x300B \<notin> set y0"
        by (meson split_list_first)
      have "y0 @ 0x300B # (q0 @ 0x300A # ttl @ 0x300B # b) = y @ 0x300B # q"
        using r cs(1) by simp
      then have "y0 = y"
        using first_close_unique cs(2) shape(3) by blast
      then have "title_span (c # cs) [] y q0"
        using c cs(1) shape(2,3) by (simp add: title_span_def)
      then show False
        using Cons.prems by (simp add: span_free_def)
    qed
    have "(cs @ 0x300A # ttl) @ 0x300B # b = y @ 0x300B # q"
      using r by simp
    moreover have "0x300B \<notin> set (cs @ 0x300A # ttl)"
      using notin assms(2) by simp
    ultimately have y: "cs @ 0x300A # ttl = y" and q: "b = q"
      using first_close_unique shape(3) by blast+
    have "scan u chinese_classics_pattern p (0x300A # y @ 0x300B # q) 0 =
            [y] # scan u chinese_classics_pattern (Some 0x300B) q 0"
      by (rule classics_step [OF shape(2,3)])
    then have "scan u chinese_classics_pattern p ((c # cs) @ 0x300A # ttl @ 0x300B # b) 0 =
            [(cs @ [0x300A]) @ ttl] # scan u chinese_classics_pattern (Some 0x300B) b 0"
      unfolding y [symmetric] q [symmetric] c by simp
    then show ?thesis
      using c by auto
  qed
qed

text \<open>
  The scan yields an entry by the closing bracket of every bracketed title, whatever
  precedes the title.
\<close>

lemma classics_reach_close:
  assumes "y \<noteq> []" and "0x300B \<notin> set y" and "k \<le> length w"
  shows "\<exists>es. es \<noteq> [] \<and> concat es \<noteq> [] \<and>
           scan u chinese_classics_pattern p (w @ 0x300A # y @ 0x300B # q) k =
             es @ scan u chinese_classics_pattern (Some 0x300B) q 0"
  using assms(3)
proof (induction w arbitrary: p k)
  case Nil
  then show ?case
    using classics_step [OF assms(1,2), of u p q] assms(1)
    by (intro exI [of _ "[[y]]"]) simp
next
  case (Cons c cs)
  let ?r = "cs @ 0x300A # y @ 0x300B # q"
  show ?case
  proof (cases "0 < k")
    case True
    then have "scan u chinese_classics_pattern p (c # ?r) k =
               scan u chinese_classics_pattern (Some c) ?r (k - 1)"
      by simp
    moreover have "k - 1 \<le> length cs"
      using Cons.prems by simp
    ultimately show ?thesis
      using Cons.IH [of "k - 1" "Some c"] by simp
  next
    case False
    then have k: "k = 0" by simp
    show ?thesis
    proof (cases "re_match u chinese_classics_pattern p (c # ?r)")
      case None
      then have "scan u chinese_classics_pattern p (c # ?r) 0 =
                 scan u chinese_classics_pattern (Some c) ?r 0"
        by simp
      then show ?thesis
        using Cons.IH [of 0 "Some c"] k by simp
    next
      case (Some m)
      from classics_match_D [OF Some]
      obtain y' q' where shape: "c # ?r = 0x300A # y' @ 0x300B # q'" "y' \<noteq> []"
        "0x300B \<notin> set y'" "m = (length y' + 2, [1, length y' + 1])"
        by blast
      then have c: "c = 0x300A" and r: "?r = y' @ 0x300B # q'"
        by simp_all
      show ?thesis
      proof (cases "0x300B \<in> set cs")
        case True
        then obtain y0 q0 where cs: "cs = y0 @ 0x300B # q0" "0x300B \<notin> set y0"
          by (meson split_list_first)
        have "y0 @ 0x300B # (q0 @ 0x300A # y @ 0x300B # q) = y' @ 0x300B # q'"
          using r cs(1) by simp
        then have "y0 = y'"
          using first_close_unique cs(2) shape(3) by blast
        then have le: "length y' + 1 \<le> length cs"
          using cs(1) by simp
        have "scan u chinese_classics_pattern p (c # ?r) 0 =
                match_groups m (c # ?r) #
                scan u chinese_classics_pattern (Some c) ?r (length y' + 1)"
          using Some shape(4) by simp
        moreover obtain es where es: "concat es \<noteq> []"
          "scan u chinese_classics_pattern (Some c) ?r (length y' + 1) =
             es @ scan u chinese_classics_pattern (Some 0x300B) q 0"
          using Cons.IH [OF le, of "Some c"] by blast
        ultimately have "scan u chinese_classics_pattern p ((c # cs) @ 0x300A # y @ 0x300B # q) k =
                (match_groups m (c # ?r) # es) @ scan u chinese_classics_pattern (Some 0x300B) q 0"
          using k by simp
        then show ?thesis
          using es(1) by (intro exI [of _ "match_groups m (c # ?r) # es"]) (simp del: scan.simps)
      next
        case False
        have "(cs @ 0x300A # y) @ 0x300B # q = y' @ 0x300B # q'"
          using r by simp
        moreover have "0x300B \<notin> set (cs @ 0x300A # y)"
          using False assms(2) by simp
        ultimately have q: "q = q'"
          using first_close_unique shape(3) by blast
        have eq: "(c # cs) @ 0x300A # y @ 0x300B # q = 0x300A # y' @ 0x300B # q'"
          using shape(1) by simp
        have "scan u chinese_classics_pattern p (0x300A # y' @ 0x300B # q') 0 =
                [[y']] @ scan u chinese_classics_pattern (Some 0x300B) q 0"
          unfolding q by (simp only: classics_step [OF shape(2,3)] append_Cons append_Nil)
        then show ?thesis
          unfolding eq k using shape(2) by (intro exI [of _ "[[y']]"]) (simp del: scan.simps)
      qed
    qed
  qed
qed

lemma two_spans_two_classics:
  assumes "y \<noteq> []" and "0x300B \<notin> set y" and "z \<noteq> []" and "0x300B \<notin> set z"
  shows "2 \<le> length (scan u chinese_classics_pattern p
                        (w @ 0x300A # y @ 0x300B # v @ 0x300A # z @ 0x300B # b) 0)"
proof -
  obtain es where es: "es \<noteq> []"
    "scan u chinese_classics_pattern p (w @ 0x300A # y @ 0x300B # v @ 0x300A # z @ 0x300B # b) 0 =
       es @ scan u chinese_classics_pattern (Some 0x300B) (v @ 0x300A # z @ 0x300B # b) 0"
    using classics_reach_close [OF assms(1,2), of 0 w u p] by blast
  obtain fs where fs: "fs \<noteq> []"
    "scan u chinese_classics_pattern (Some 0x300B) (v @ 0x300A # z @ 0x300B # b) 0 =
       fs @ scan u chinese_classics_pattern (Some 0x300B) b 0"
    using classics_reach_close [OF assms(3,4), of 0 v u "Some 0x300B"] by blast
  have "1 \<le> length es" "1 \<le> length fs"
    using es(1) fs(1) by (simp_all add: Suc_le_eq)
  then show ?thesis
    unfolding es(2) fs(2) by simp
qed

text \<open>
  A group that repeats one atom, and the literal behind it.
\<close>

lemma group_run_D:
  assumes "accepts u (LParen # Rep a lo hi # RParen # Lit l # is) p r"
  shows "\<exists>x r' q. r = x @ l @ r' \<and> lo \<le> length x \<and> (\<forall>c\<in>set x. atom_ok u a c) \<and>
           accepts u is q r'"
proof -
  have "accepts u (Rep a lo hi # RParen # Lit l # is) p r"
    using assms unfolding accepts_LParen .
  then obtain j where j: "lo \<le> j" "j \<le> run_len u a hi r"
    "accepts u (RParen # Lit l # is) (prev_after p (take j r)) (drop j r)"
    unfolding accepts_Rep by blast
  have "j \<le> length (takeWhile (atom_ok u a) r)"
    using j(2) by (simp add: run_len_def Let_def split: option.splits)
  then have x: "length (take j r) = j" "\<forall>c\<in>set (take j r). atom_ok u a c"
    unfolding le_takeWhile_iff by simp_all
  obtain r2 where "drop j r = l @ r2"
    "accepts u is (prev_after (prev_after p (take j r)) l) r2"
    using j(3) unfolding accepts_RParen accepts_Lit by blast
  then have "r = take j r @ l @ r2 \<and> lo \<le> length (take j r) \<and>
      (\<forall>c\<in>set (take j r). atom_ok u a c) \<and>
      accepts u is (prev_after (prev_after p (take j r)) l) r2"
    using x j(1) by (metis append_take_drop_id)
  then show ?thesis by blast
qed

text \<open>
  A sentence of the modern-paper shape holds two bracketed titles, a comma between them.
\<close>

lemma modern_needs_two_spans:
  assumes "re_match u modern_papers_pattern p r \<noteq> None"
  shows "\<exists>w y z b. r = w @ 0x300A # y @ 0x300B # [0xFF0C] @ 0x300A # z @ 0x300B # b \<and>
           y \<noteq> [] \<and> 0x300B \<notin> set y \<and> z \<noteq> [] \<and> 0x300B \<notin> set z"
proof -
  have "accepts u modern_papers_pattern p r"
    using assms by (simp add: accepts_def)
  from group_run_D [OF this [unfolded modern_papers_pattern_def]]
  obtain w r1 q1 where 1: "r = w @ [0x300A] @ r1"
    "accepts u [LParen, Rep (NotIn rquote) 1 None, RParen, Lit [0x300B, 0xFF0C, 0x300A],
       LParen, Rep (NotIn rquote) 1 None, RParen, Lit [0x300B],
       LParen, Rep Digit 4 (Some 4), RParen, Lit [0x5E74, 0x7B2C],
       LParen, Rep Digit 1 None, RParen, Lit [0x671F]] q1 r1"
    by blast
  from group_run_D [OF 1(2)]
  obtain y r2 q2 where 2: "r1 = y @ [0x300B, 0xFF0C, 0x300A] @ r2" "1 \<le> length y"
    "\<forall>c\<in>set y. atom_ok u (NotIn rquote) c"
    "accepts u [LParen, Rep (NotIn rquote) 1 None, RParen, Lit [0x300B],
       LParen, Rep Digit 4 (Some 4), RParen, Lit [0x5E74, 0x7B2C],
       LParen, Rep Digit 1 None, RParen, Lit [0x671F]] q2 r2"
    by blast
  from group_run_D [OF 2(4)]
  obtain z b q3 where 3: "r2 = z @ [0x300B] @ b" "1 \<le> length z"
    "\<forall>c\<in>set z. atom_ok u (NotIn rquote) c"
    by blast
  have "y \<noteq> []" "z \<noteq> []"
    using 2(2) 3(2) by auto
  moreover have "0x300B \<notin> set y" "0x300B \<notin> set z"
    using 2(3) 3(3) by (auto simp: in_ranges_def)
  moreover have "r = w @ 0x300A # y @ 0x300B # [0xFF0C] @ 0x300A # z @ 0x300B # b"
    using 1(1) 2(1) 3(1) by simp
  ultimately show ?thesis by blast
qed

text \<open>
  Where every bracketed title of a text ends at one and the same closing bracket, no
  bracketed title lies before that title and none behind it.
\<close>

lemma sole_span_free:
  assumes "title_span s a ttl b"
    and "\<And>a' y' b'. title_span s a' y' b' \<Longrightarrow> b' = b"
  shows "span_free a \<and> span_free b"
proof -
  have s: "s = a @ [0x300A] @ ttl @ [0x300B] @ b"
    using assms(1) by (simp add: title_span_def)
  have "\<not> title_span a p y q" for p y q
  proof
    assume "title_span a p y q"
    then have "title_span s p y (q @ [0x300A] @ ttl @ [0x300B] @ b)"
      unfolding s by (simp add: title_span_def)
    then have "q @ [0x300A] @ ttl @ [0x300B] @ b = b"
      by (rule assms(2))
    then have "length (q @ [0x300A] @ ttl @ [0x300B] @ b) = length b"
      by simp
    then show False by simp
  qed
  moreover have "\<not> title_span b p y q" for p y q
  proof
    assume sp: "title_span b p y q"
    then have "title_span s (a @ [0x300A] @ ttl @ [0x300B] @ p) y q"
      unfolding s by (simp add: title_span_def)
    then have "q = b"
      by (rule assms(2))
    then have "length q = length (p @ [0x300A] @ y @ [0x300B] @ q)"
      using sp by (simp add: title_span_def)
    then show False by simp
  qed
  ultimately show ?thesis
    by (simp add: span_free_def)
qed

text \<open>
  The first entry of a scan comes from a bracketed title with none before it.
\<close>

lemma classics_first_entry:
  assumes "scan u chinese_classics_pattern p t 0 = e # es"
  shows "\<exists>a y b. title_span t a y b \<and> span_free a"
  using assms
proof (induction t arbitrary: p)
  case Nil
  then show ?case
    by (simp add: classics_needs_bracket)
next
  case (Cons c cs)
  show ?case
  proof (cases "re_match u chinese_classics_pattern p (c # cs)")
    case None
    then have "scan u chinese_classics_pattern (Some c) cs 0 = e # es"
      using Cons.prems by simp
    from Cons.IH [OF this]
    obtain a y b where sp: "title_span cs a y b" "span_free a"
      by blast
    have cs: "cs = a @ 0x300A # y @ 0x300B # b"
      using sp(1) by (simp add: title_span_def)
    have "\<not> title_span (c # a) a' y' b'" for a' y' b'
    proof
      assume new: "title_span (c # a) a' y' b'"
      show False
      proof (cases a')
        case Nil
        then have "c # cs = 0x300A # y' @ 0x300B # (b' @ 0x300A # y @ 0x300B # b)"
          "y' \<noteq> []" "0x300B \<notin> set y'"
          using new cs by (simp_all add: title_span_def)
        then show False
          using None classics_match [of y' u p] by simp
      next
        case (Cons c' a'')
        then have "title_span a a'' y' b'"
          using new by (simp add: title_span_def)
        then show False
          using sp(2) by (simp add: span_free_def)
      qed
    qed
    then have "span_free (c # a)"
      by (simp add: span_free_def)
    moreover have "title_span (c # cs) (c # a) y b"
      using sp(1) by (simp add: title_span_def)
    ultimately show ?thesis by blast
  next
    case (Some m)
    from classics_match_D [OF Some]
    obtain y q where "c # cs = 0x300A # y @ 0x300B # q" "y \<noteq> []" "0x300B \<notin> set y"
      by blast
    then have "title_span (c # cs) [] y q"
      by (simp add: title_span_def)
    moreover have "span_free []"
      by (simp add: span_free_iff)
    ultimately show ?thesis by blast
  qed
qed

text \<open>
  A text that yields exactly one classic holds a bracketed title, with no bracketed title
  before it and none behind it.
\<close>

lemma one_classic_one_span:
  assumes "length (chinese_classics (extract_citations u s)) = 1"
  shows "\<exists>a ttl b. title_span s a ttl b \<and> span_free a \<and> span_free b"
proof -
  have len: "length (concat (scan u chinese_classics_pattern None s 0)) = 1"
    using assms by (simp add: extract_citations_def re_findall_str_def re_findall_def)
  then obtain e es where "scan u chinese_classics_pattern None s 0 = e # es"
    by (cases "scan u chinese_classics_pattern None s 0") auto
  from classics_first_entry [OF this]
  obtain a ttl b where sp: "title_span s a ttl b" "span_free a"
    by blast
  then have s: "s = a @ 0x300A # ttl @ 0x300B # b" and ttl: "ttl \<noteq> []" "0x300B \<notin> set ttl"
    by (simp_all add: title_span_def)
  obtain x where "scan u chinese_classics_pattern None s 0 =
      [x @ ttl] # scan u chinese_classics_pattern (Some 0x300B) b 0"
    unfolding s using classics_through_prefix [OF ttl sp(2), of u None b] by blast
  then have rest: "concat (scan u chinese_classics_pattern (Some 0x300B) b 0) = []"
    using len by simp
  have "\<not> title_span b a' y' b'" for a' y' b'
  proof
    assume "title_span b a' y' b'"
    then have b: "b = a' @ 0x300A # y' @ 0x300B # b'" and y': "y' \<noteq> []" "0x300B \<notin> set y'"
      by (simp_all add: title_span_def)
    obtain fs where "concat fs \<noteq> []"
      "scan u chinese_classics_pattern (Some 0x300B) b 0 =
         fs @ scan u chinese_classics_pattern (Some 0x300B) b' 0"
      unfolding b using classics_reach_close [OF y', of 0 a' u "Some 0x300B" b'] by blast
    then show False
      using rest by simp
  qed
  then have "span_free b"
    by (simp add: span_free_def)
  then show ?thesis
    using sp by blast
qed

text \<open>
  C6. A bracketed title is an opening bracket U+300A, a run of one or more characters
  other than the closing bracket U+300B, and the closing bracket that ends the run; an
  empty pair of brackets, an opening bracket left open and a closing bracket without an
  opening one are no bracketed titles. Let the text hold a bracketed title, with no
  bracketed title before it and none behind it. Then \<open>extract_citations\<close> returns exactly
  one classical reference and no modern paper. The reference ends with the title, and it
  is the title where no opening bracket precedes the title. (A sentence of the
  modern-paper shape holds two bracketed titles, so a text with one holds no such
  sentence. The texts of this form are all the texts with exactly one classical
  reference, by \<open>one_classic_one_span\<close>, and among them are the texts whose bracketed
  titles all end at one closing bracket, by \<open>sole_span_free\<close>.)
\<close>

theorem one_title_one_classic:
  assumes "title_span s a ttl b" and "span_free a" and "span_free b"
  shows "length (chinese_classics (extract_citations u s)) = 1 \<and>
         (\<exists>x. chinese_classics (extract_citations u s) = [x @ ttl]) \<and>
         (0x300A \<notin> set a \<longrightarrow> chinese_classics (extract_citations u s) = [ttl]) \<and>
         modern_papers (extract_citations u s) = []"
proof -
  have s: "s = a @ 0x300A # ttl @ 0x300B # b" and ttl: "ttl \<noteq> []" "0x300B \<notin> set ttl"
    using assms(1) by (simp_all add: title_span_def)
  obtain x where x: "scan u chinese_classics_pattern None s 0 =
      [x @ ttl] # scan u chinese_classics_pattern (Some 0x300B) b 0"
    "0x300A \<notin> set a \<longrightarrow> x = []"
    unfolding s using classics_through_prefix [OF ttl assms(2), of u None b] by blast
  have sc: "scan u chinese_classics_pattern None s 0 = [[x @ ttl]]"
    unfolding x(1) by (simp add: span_free_no_classic [OF assms(3)])
  then have classics: "re_findall_str u chinese_classics_pattern s = [x @ ttl]"
    by (simp add: re_findall_str_def re_findall_def)
  have "scan u modern_papers_pattern None s 0 = []"
  proof (rule scan_none)
    fix a1 a2 :: str
    assume split: "s = a1 @ a2"
    show "re_match u modern_papers_pattern (prev_after None a1) a2 = None"
    proof (rule ccontr)
      assume "re_match u modern_papers_pattern (prev_after None a1) a2 \<noteq> None"
      from modern_needs_two_spans [OF this]
      obtain w y z c where "a2 = w @ 0x300A # y @ 0x300B # [0xFF0C] @ 0x300A # z @ 0x300B # c"
        "y \<noteq> []" "0x300B \<notin> set y" "z \<noteq> []" "0x300B \<notin> set z"
        by blast
      then have "2 \<le> length (scan u chinese_classics_pattern None s 0)"
        using two_spans_two_classics [of y z u None "a1 @ w" "[0xFF0C]" c] split by simp
      then show False
        unfolding sc by simp
    qed
  qed
  then have modern: "re_findall u modern_papers_pattern s = []"
    by (simp add: re_findall_def)
  show ?thesis
    using x(2) by (simp add: extract_citations_def classics modern)
qed

theorem one_title_one_classic_witness:
  "title_span one_title_text [0x300A, 0x300B] shipin [0x300B, 0x89C1, 0x300A] \<and>
   span_free [0x300A, 0x300B] \<and> span_free [0x300B, 0x89C1, 0x300A] \<and>
   chinese_classics (extract_citations plain_tables one_title_text) = [shipin] \<and>
   length (chinese_classics (extract_citations plain_tables one_title_text)) = 1 \<and>
   modern_papers (extract_citations plain_tables one_title_text) = []"
proof -
  have sp: "title_span one_title_text [0x300A, 0x300B] shipin [0x300B, 0x89C1, 0x300A]"
    by (simp add: title_span_def one_title_text_def)
  have a: "span_free [0x300A, 0x300B]" and b: "span_free [0x300B, 0x89C1, 0x300A]"
    by (simp_all add: span_free_iff)
  have "chinese_classics (extract_citations plain_tables one_title_text) = [shipin]"
    by (simp add: extract_citations_def one_title_text_def re_eval chinese_classics_pattern_def upt_rec)
  with one_title_one_classic [OF sp a b, of plain_tables] sp a b
  show ?thesis by simp
qed

section \<open>The citation audit\<close>

lemma notices_loop:
  "foldl (\<lambda>acc foreign_text.
            case map_of tbl foreign_text of
              Some standard \<Rightarrow> acc @ [translation_notice foreign_text standard]
            | None \<Rightarrow> acc) acc0 xs =
   acc0 @ concat (map (\<lambda>foreign_text.
                    case map_of tbl foreign_text of
                      Some standard \<Rightarrow> [translation_notice foreign_text standard]
                    | None \<Rightarrow> []) xs)"
  by (induction xs arbitrary: acc0) (simp_all split: option.splits)

lemma check_citations_closed:
  "check_citations_accuracy cs =
     map edition_reminder (filter (\<lambda>classic. classic \<in> set canonical_classics) (chinese_classics cs)) @
     concat (map (\<lambda>foreign_text.
                    case map_of common_mistranslations foreign_text of
                      Some standard \<Rightarrow> [translation_notice foreign_text standard]
                    | None \<Rightarrow> []) (foreign_texts cs))"
  by (simp add: check_citations_accuracy_def foldl_append_if notices_loop)

lemma audit_reminder:
  assumes "classic \<in> set (chinese_classics cs)" and "classic \<in> set canonical_classics"
  shows "edition_reminder classic \<in> set (check_citations_accuracy cs)"
  using assms unfolding check_citations_closed by simp

lemma audit_notice:
  assumes "foreign_text \<in> set (foreign_texts cs)"
    and "map_of common_mistranslations foreign_text = Some standard"
  shows "translation_notice foreign_text standard \<in> set (check_citations_accuracy cs)"
proof -
  have "translation_notice foreign_text standard \<in>
        set (case map_of common_mistranslations foreign_text of
               Some standard \<Rightarrow> [translation_notice foreign_text standard] | None \<Rightarrow> [])"
    using assms(2) by simp
  then show ?thesis
    unfolding check_citations_closed using assms(1) by auto
qed

subsection \<open>Titles\<close>

lemma titles_closed_append:
  assumes "titles_closed (a1 @ 0x300A # s)"
  shows "0x300B \<in> set s"
  using assms by (induction a1) (auto split: if_splits)

lemma classics_match_shape:
  assumes "re_match u chinese_classics_pattern p r = Some m"
  shows "\<exists>ttl b. r = 0x300A # ttl @ 0x300B # b \<and> 0x300B \<notin> set ttl \<and> fst m = length ttl + 2"
  using classics_match_D [OF assms] by fastforce

lemma classics_stay_inside:
  assumes "titles_closed a" and "a = a1 @ a2" and "a2 \<noteq> []"
    and "re_match u chinese_classics_pattern q (a2 @ rest) = Some m"
  shows "fst m \<le> length a2"
proof -
  obtain ttl b where shape: "a2 @ rest = 0x300A # ttl @ 0x300B # b" "0x300B \<notin> set ttl"
    "fst m = length ttl + 2"
    using classics_match_shape [OF assms(4)] by blast
  obtain s where a2: "a2 = 0x300A # s"
    using assms(3) shape(1) by (cases a2) auto
  have tail: "s @ rest = ttl @ 0x300B # b"
    using shape(1) unfolding a2 by simp
  have closing: "0x300B \<in> set s"
    using assms(1) unfolding assms(2) a2 by (rule titles_closed_append)
  have "length ttl < length s"
  proof (rule ccontr)
    assume "\<not> length ttl < length s"
    then have "length s \<le> length ttl" by simp
    then have "s = take (length s) ttl"
      using arg_cong [OF tail, of "take (length s)"] by simp
    then have "set s \<subseteq> set ttl"
      by (metis set_take_subset)
    then show False
      using closing shape(2) by blast
  qed
  then show ?thesis
    unfolding shape(3) a2 by simp
qed

lemma closed_title_found:
  assumes "titles_closed a" and "ttl \<noteq> []" and "0x300B \<notin> set ttl"
  shows "ttl \<in> set (re_findall_str u chinese_classics_pattern (a @ [0x300A] @ ttl @ [0x300B] @ b))"
proof -
  let ?w = "0x300A # ttl @ [0x300B]"
  have m: "re_match u chinese_classics_pattern (prev_after None a) (?w @ b) =
           Some (length ?w, [1, length ttl + 1])"
    using classics_match [OF assms(2,3), of u "prev_after None a" b] by simp
  obtain ys where "scan u chinese_classics_pattern None (a @ ?w @ b) 0 =
                   ys @ scan u chinese_classics_pattern (prev_after None a) (?w @ b) 0"
    using scan_split [of a u chinese_classics_pattern None "?w @ b" 0]
      classics_stay_inside [OF assms(1)] by blast
  moreover have "scan u chinese_classics_pattern (prev_after None a) (?w @ b) 0 =
        match_groups (length ?w, [1, length ttl + 1]) (?w @ b) #
        scan u chinese_classics_pattern (prev_after (prev_after None a) ?w) b 0"
    by (rule scan_match_step [OF _ m]) simp
  moreover have "match_groups (length ?w, [1, length ttl + 1]) (?w @ b) = [ttl]"
    by (simp add: match_groups_def)
  ultimately show ?thesis
    by (simp add: re_findall_str_def re_findall_def)
qed

subsection \<open>Foreign names\<close>

lemma letter_is_word: "in_ranges c alpha \<Longrightarrow> is_word u c"
  by (auto simp: in_ranges_def is_word_def)

lemma capital_is_word: "in_ranges c upper \<Longrightarrow> is_word u c"
  by (auto simp: in_ranges_def is_word_def)

lemma foreign_match_letters:
  assumes "re_match u foreign_texts_pattern p r = Some m"
  shows "fst m \<le> length r \<and> (\<forall>c\<in>set (take (fst m) r). is_word u c)"
proof -
  obtain c cs where r: "r = c # cs" and c: "in_ranges c upper"
    using assms by (cases r) (auto simp: re_match_def foreign_texts_pattern_def split: if_splits)
  define k where "k = run_len u (In alpha) None cs"
  define f where "f = (\<lambda>j. rmatch u [RParen, Bnd] (prev_after (Some c) (take j cs)) (drop j cs)
      (1 + j) [0])"
  have "rmatch u [Rep (In alpha) 1 None, RParen, Bnd] (Some c) cs 1 [0] = Some m"
    using assms c unfolding r by (simp add: re_match_def foreign_texts_pattern_def split: if_splits)
  then have "first_some f (rev [1..<Suc k]) = Some m"
    unfolding f_def k_def by (simp add: Let_def split: if_splits del: upt_Suc)
  then obtain j where j: "j \<in> set (rev [1..<Suc k])" "f j = Some m"
    using first_some_SomeD by fastforce
  have jk: "j \<le> length (takeWhile (atom_ok u (In alpha)) cs)"
    using j(1) unfolding k_def run_len_def by (simp del: upt_Suc)
  then have letters: "\<forall>x\<in>set (take j cs). in_ranges x alpha" and len: "j \<le> length cs"
    unfolding le_takeWhile_iff by auto
  have m: "fst m = j + 1"
    using j(2) unfolding f_def by (auto split: if_splits)
  have "take (fst m) r = c # take j cs"
    unfolding m r by simp
  then show ?thesis
    using letters c len m r by (auto simp: letter_is_word capital_is_word)
qed

lemma foreign_stay_inside:
  assumes "\<not> word_before u a" and "a = a1 @ a2" and "a2 \<noteq> []"
    and "re_match u foreign_texts_pattern q (a2 @ rest) = Some m"
  shows "fst m \<le> length a2"
proof (rule ccontr)
  assume "\<not> fst m \<le> length a2"
  then have "set a2 \<subseteq> set (take (fst m) (a2 @ rest))"
    by auto
  moreover have "last a2 \<in> set a2"
    using assms(3) by simp
  ultimately have "is_word u (last a2)"
    using foreign_match_letters [OF assms(4)] by blast
  moreover have "last a = last a2" and "a \<noteq> []"
    using assms(2,3) by simp_all
  ultimately show False
    using assms(1) by (simp add: word_before_def)
qed

lemma foreign_match_token:
  assumes "\<not> word_before u a" and "in_ranges x upper" and "w \<noteq> []"
    and "\<forall>y\<in>set w. in_ranges y alpha" and "\<not> word_after u d"
  shows "re_match u foreign_texts_pattern (prev_after None a) (x # w @ d) =
           Some (length w + 1, [0, length w + 1])"
proof -
  have start: "at_boundary u (prev_after None a) (x # w @ d)"
    unfolding boundary_at_start using assms(1,2) by (simp add: word_after_def capital_is_word)
  have "takeWhile (atom_ok u (In alpha)) d = []"
    using assms(5) by (cases d) (auto simp: word_after_def letter_is_word)
  moreover have "takeWhile (atom_ok u (In alpha)) (w @ d) = w @ takeWhile (atom_ok u (In alpha)) d"
    by (rule takeWhile_append2) (use assms(4) in simp)
  ultimately have run: "run_len u (In alpha) None (w @ d) = length w"
    by (simp add: run_len_def)
  define f where "f = (\<lambda>j. rmatch u [RParen, Bnd] (prev_after (Some x) (take j (w @ d)))
      (drop j (w @ d)) (1 + j) [0])"
  have "is_word u (last w)"
    using assms(3,4) by (simp add: letter_is_word)
  then have "at_boundary u (prev_after (Some x) w) d"
    using boundary_after_word [OF assms(3), of u "Some x" d] assms(5) by simp
  then have top: "f (length w) = Some (length w + 1, [0, length w + 1])"
    by (simp add: f_def)
  have le: "1 \<le> length w"
    using assms(3) by (simp add: Suc_le_eq)
  have "rmatch u [Rep (In alpha) 1 None, RParen, Bnd] (Some x) (w @ d) 1 [0] =
        first_some f (rev [1..<Suc (length w)])"
    unfolding f_def using le by (simp add: run Let_def del: upt_Suc)
  also have "\<dots> = Some (length w + 1, [0, length w + 1])"
    using first_some_top [of 1 "length w" f, OF le top] .
  finally show ?thesis
    using start assms(2) by (simp add: re_match_def foreign_texts_pattern_def)
qed

lemma token_found:
  assumes "\<not> word_before u a" and "in_ranges x upper" and "w \<noteq> []"
    and "\<forall>y\<in>set w. in_ranges y alpha" and "\<not> word_after u d"
  shows "x # w \<in> set (re_findall_str u foreign_texts_pattern (a @ (x # w) @ d))"
proof -
  have m: "re_match u foreign_texts_pattern (prev_after None a) ((x # w) @ d) =
           Some (length (x # w), [0, length w + 1])"
    using foreign_match_token [OF assms] by simp
  obtain ys where "scan u foreign_texts_pattern None (a @ (x # w) @ d) 0 =
                   ys @ scan u foreign_texts_pattern (prev_after None a) ((x # w) @ d) 0"
    using scan_split [of a u foreign_texts_pattern None "(x # w) @ d" 0]
      foreign_stay_inside [OF assms(1)] by blast
  moreover have "scan u foreign_texts_pattern (prev_after None a) ((x # w) @ d) 0 =
        match_groups (length (x # w), [0, length w + 1]) ((x # w) @ d) #
        scan u foreign_texts_pattern (prev_after (prev_after None a) (x # w)) d 0"
    by (rule scan_match_step [OF _ m]) simp
  moreover have "match_groups (length (x # w), [0, length w + 1]) ((x # w) @ d) = [x # w]"
    by (simp add: match_groups_def)
  ultimately show ?thesis
    by (simp add: re_findall_str_def re_findall_def)
qed

text \<open>
  C3, in the form the script satisfies. Let the text hold the bracketed title U+300A
  U+6587 U+5FC3 U+96D5 U+9F99 U+300B at a place before which every opening title bracket
  is closed, and let it hold the name Heidegger with no word character directly before or
  behind it. Then the audit of the extracted citations holds the reminder to cite edition
  and page for the title and the notice that gives the standard translation U+6D77 U+5FB7
  U+683C U+5C14 for Heidegger. Whether the translation itself occurs in the text plays no
  part.
\<close>

theorem citation_audit_scenario:
  assumes "s = a @ [0x300A] @ wenxin_diaolong @ [0x300B] @ b" and "titles_closed a"
    and "s = c @ (ascii ''Heidegger'') @ d" and "\<not> word_before u c" and "\<not> word_after u d"
  shows "edition_reminder wenxin_diaolong \<in> set (check_citations_accuracy (extract_citations u s)) \<and>
         translation_notice (ascii ''Heidegger'') haidegeer \<in>
           set (check_citations_accuracy (extract_citations u s))"
proof -
  note assms(1)
  moreover have "wenxin_diaolong \<in> set (re_findall_str u chinese_classics_pattern
      (a @ [0x300A] @ wenxin_diaolong @ [0x300B] @ b))"
    by (rule closed_title_found [OF assms(2)]) simp_all
  ultimately have classic: "wenxin_diaolong \<in> set (chinese_classics (extract_citations u s))"
    by (simp add: extract_citations_def)
  have "s = c @ (72 # (ascii ''eidegger'')) @ d"
    using assms(3) by (simp add: ascii_def)
  moreover have "72 # (ascii ''eidegger'') \<in> set (re_findall_str u foreign_texts_pattern
      (c @ (72 # (ascii ''eidegger'')) @ d))"
    by (rule token_found [OF assms(4) _ _ _ assms(5)]) (simp_all add: ascii_def in_ranges_def)
  ultimately have "72 # (ascii ''eidegger'') \<in> set (foreign_texts (extract_citations u s))"
    by (simp add: extract_citations_def)
  then have name: "(ascii ''Heidegger'') \<in> set (foreign_texts (extract_citations u s))"
    by (simp add: ascii_def)
  have "edition_reminder wenxin_diaolong \<in> set (check_citations_accuracy (extract_citations u s))"
    by (rule audit_reminder [OF classic]) (simp add: canonical_classics_def)
  moreover have "translation_notice (ascii ''Heidegger'') haidegeer \<in>
      set (check_citations_accuracy (extract_citations u s))"
    by (rule audit_notice [OF name]) (simp add: common_mistranslations_def ascii_def)
  ultimately show ?thesis by simp
qed

text \<open>
  As the specification states it, the property fails: where an ideograph follows the name
  directly, as it does in running Chinese text, no word boundary ends the name, no foreign
  token is extracted and the audit holds the reminder only.
\<close>

theorem citation_audit_counterexample:
  "\<not> str_in haidegeer name_in_running_text \<and>
   str_in (ascii ''Heidegger'') name_in_running_text \<and>
   str_in ([0x300A] @ wenxin_diaolong @ [0x300B]) name_in_running_text \<and>
   foreign_texts (extract_citations plain_tables name_in_running_text) = [] \<and>
   check_citations_accuracy (extract_citations plain_tables name_in_running_text) =
     [edition_reminder wenxin_diaolong] \<and>
   translation_notice (ascii ''Heidegger'') haidegeer \<notin>
     set (check_citations_accuracy (extract_citations plain_tables name_in_running_text))"
proof -
  have classics: "re_findall_str plain_tables chinese_classics_pattern name_in_running_text =
                  [wenxin_diaolong]"
    by (simp add: re_eval chinese_classics_pattern_def)
  have foreign: "re_findall_str plain_tables foreign_texts_pattern name_in_running_text = []"
    by (simp add: re_eval foreign_texts_pattern_def upt_rec)
  have "check_citations_accuracy (extract_citations plain_tables name_in_running_text) =
        [edition_reminder wenxin_diaolong]"
    using classics foreign
    by (simp add: check_citations_closed extract_citations_def canonical_classics_def)
  moreover have "translation_notice (ascii ''Heidegger'') haidegeer \<noteq> edition_reminder wenxin_diaolong"
    by (simp add: translation_notice_def edition_reminder_def ascii_def)
  moreover have "\<not> str_in haidegeer name_in_running_text \<and>
      str_in (ascii ''Heidegger'') name_in_running_text \<and> str_in ([0x300A] @ wenxin_diaolong @ [0x300B]) name_in_running_text"
    by (simp add: ascii_def)
  ultimately show ?thesis
    using foreign by (simp add: extract_citations_def)
qed

theorem citation_audit_scenario_witness:
  "spaced_name_text = [0x89C1, 32, 72, 101, 105, 100, 101, 103, 103,
                       101, 114, 32, 0x4E0E, 0x300A, 0x8BD7, 0x54C1, 0x300B] @ [0x300A] @ wenxin_diaolong @ [0x300B] @ [0x3002] \<and>
   titles_closed [0x89C1, 32, 72, 101, 105, 100, 101, 103, 103, 101,
                  114, 32, 0x4E0E, 0x300A, 0x8BD7, 0x54C1, 0x300B] \<and>
   spaced_name_text = [0x89C1, 32] @ (ascii ''Heidegger'') @ [32, 0x4E0E, 0x300A, 0x8BD7,
        0x54C1, 0x300B, 0x300A, 0x6587, 0x5FC3, 0x96D5, 0x9F99, 0x300B, 0x3002] \<and>
   \<not> word_before plain_tables [0x89C1, 32] \<and> \<not> word_after plain_tables [32,
        0x4E0E, 0x300A, 0x8BD7, 0x54C1, 0x300B, 0x300A, 0x6587, 0x5FC3, 0x96D5, 0x9F99, 0x300B,
        0x3002] \<and>
   edition_reminder wenxin_diaolong \<in>
     set (check_citations_accuracy (extract_citations plain_tables spaced_name_text)) \<and>
   translation_notice (ascii ''Heidegger'') haidegeer \<in>
     set (check_citations_accuracy (extract_citations plain_tables spaced_name_text))"
proof -
  have 1: "spaced_name_text = [0x89C1, 32, 72, 101, 105, 100, 101, 103,
                               103, 101, 114, 32, 0x4E0E, 0x300A, 0x8BD7, 0x54C1,
                               0x300B] @ [0x300A] @ wenxin_diaolong @ [0x300B] @ [0x3002]"
    by (simp add: ascii_def)
  have 2: "titles_closed [0x89C1, 32, 72, 101, 105, 100, 101, 103, 103,
                          101, 114, 32, 0x4E0E, 0x300A, 0x8BD7, 0x54C1, 0x300B]"
    by simp
  have 3: "spaced_name_text = [0x89C1, 32] @ (ascii ''Heidegger'') @ [32, 0x4E0E, 0x300A,
        0x8BD7, 0x54C1, 0x300B, 0x300A, 0x6587, 0x5FC3, 0x96D5, 0x9F99, 0x300B, 0x3002]"
    by (simp add: ascii_def)
  have 4: "\<not> word_before plain_tables [0x89C1, 32]"
    by (simp add: word_before_def is_word_def)
  have 5: "\<not> word_after plain_tables [32, 0x4E0E, 0x300A, 0x8BD7, 0x54C1, 0x300B, 0x300A,
        0x6587, 0x5FC3, 0x96D5, 0x9F99, 0x300B, 0x3002]"
    by (simp add: word_after_def is_word_def)
  show ?thesis
    using citation_audit_scenario [OF 1 2 3 4 5] 1 2 3 4 5 by blast
qed

end
